theory Spec2Isabelle
  imports Complex_Main "HOL-Library.Log_Nat" "HOL-Library.State_Monad"
begin

section \<open>JavaScript Number values\<close>

text \<open>
  The calculator computes with JavaScript Numbers, that is IEEE 754 binary64 values.
  A Number is not-a-number, one of the two infinities, the negative zero, or a finite
  value given as an exact rational; \<open>Num 0\<close> is the positive zero.
\<close>

datatype double = NaN | PInf | NInf | NegZero | Num rat

fun is_nan :: "double \<Rightarrow> bool" where
  "is_nan NaN = True"
| "is_nan _ = False"

fun is_inf :: "double \<Rightarrow> bool" where
  "is_inf PInf = True"
| "is_inf NInf = True"
| "is_inf _ = False"

fun is_zero :: "double \<Rightarrow> bool" where
  "is_zero NegZero = True"
| "is_zero (Num x) = (x = 0)"
| "is_zero _ = False"

fun js_isFinite :: "double \<Rightarrow> bool" where
  "js_isFinite NegZero = True"
| "js_isFinite (Num x) = True"
| "js_isFinite _ = False"

fun sign_bit :: "double \<Rightarrow> bool" where
  "sign_bit NInf = True"
| "sign_bit NegZero = True"
| "sign_bit (Num x) = (x < 0)"
| "sign_bit _ = False"

fun dval :: "double \<Rightarrow> rat" where
  "dval (Num x) = x"
| "dval _ = 0"

fun mag :: "double \<Rightarrow> rat" where
  "mag (Num x) = \<bar>x\<bar>"
| "mag _ = 0"

text \<open>The infinity, and the finite Number, of a given sign (\<open>True\<close>: negative) and magnitude.\<close>

definition js_inf :: "bool \<Rightarrow> double" where
  "js_inf s = (if s then NInf else PInf)"

definition js_fin :: "bool \<Rightarrow> rat \<Rightarrow> double" where
  "js_fin s m = (if m = 0 then (if s then NegZero else Num 0) else Num (if s then - m else m))"

subsection \<open>Rounding to nearest, ties to even\<close>

text \<open>
  \<open>ilog2 x\<close> is the binary exponent of a positive rational: the integer \<open>k\<close> with
  \<open>2 powi k \<le> x < 2 powi (k + 1)\<close>.
\<close>

definition ilog2 :: "rat \<Rightarrow> int" where
  "ilog2 x = (if 1 \<le> x then bitlen \<lfloor>x\<rfloor> - 1 else - bitlen (\<lceil>1 / x\<rceil> - 1))"

text \<open>Rounding a rational to the nearest integer, a tie going to the even neighbour.\<close>

definition rhe :: "rat \<Rightarrow> int" where
  "rhe q = (let f = \<lfloor>q\<rfloor>; r = q - of_int f
            in if r < 1 / 2 then f
               else if 1 / 2 < r then f + 1
               else if even f then f else f + 1)"

text \<open>
  A binary64 magnitude has 53 significant bits and its unit in the last place is never
  below \<open>2 powi - 1074\<close> (the subnormal range): \<open>ulp_exp x\<close> is the exponent of that
  unit for the magnitude \<open>x\<close>. \<open>round_mag\<close> rounds a non-negative rational to the grid
  with the exponent unbounded above; \<open>rnd\<close> replaces a rounded magnitude of
  \<open>2 powi 1024\<close> or more by the infinity of the given sign.
\<close>

definition ulp_exp :: "rat \<Rightarrow> int" where
  "ulp_exp x = max (ilog2 x - 52) (- 1074)"

definition round_mag :: "rat \<Rightarrow> rat" where
  "round_mag x = (if x = 0 then 0
     else of_int (rhe (x / 2 powi ulp_exp x)) * 2 powi ulp_exp x)"

definition rnd :: "bool \<Rightarrow> rat \<Rightarrow> double" where
  "rnd s x = (let y = round_mag x in if 2 powi 1024 \<le> y then js_inf s else js_fin s y)"

text \<open>
  A value of the datatype is a Number when it is not finite or its magnitude lies on
  the binary64 grid below \<open>2 powi 1024\<close>.
\<close>

definition is_double :: "double \<Rightarrow> bool" where
  "is_double a = (round_mag (mag a) = mag a \<and> mag a < 2 powi 1024)"

subsection \<open>The operators \<open>*\<close>, \<open>/\<close>, \<open>+\<close> and the comparisons\<close>

text \<open>
  The three arithmetic operators follow \<open>Number::multiply\<close>, \<open>Number::divide\<close> and
  \<open>Number::add\<close> of the language definition: not-a-number is contagious, the
  infinities and zeros have their own cases, and two finite operands give the exact
  result rounded.
\<close>

definition js_mul :: "double \<Rightarrow> double \<Rightarrow> double" where
  "js_mul a b =
     (if is_nan a \<or> is_nan b then NaN
      else if is_inf a \<or> is_inf b then
        (if is_zero a \<or> is_zero b then NaN else js_inf (sign_bit a \<noteq> sign_bit b))
      else rnd (sign_bit a \<noteq> sign_bit b) (mag a * mag b))"

definition js_div :: "double \<Rightarrow> double \<Rightarrow> double" where
  "js_div a b =
     (if is_nan a \<or> is_nan b then NaN
      else if is_inf a then (if is_inf b then NaN else js_inf (sign_bit a \<noteq> sign_bit b))
      else if is_inf b then js_fin (sign_bit a \<noteq> sign_bit b) 0
      else if is_zero b then (if is_zero a then NaN else js_inf (sign_bit a \<noteq> sign_bit b))
      else rnd (sign_bit a \<noteq> sign_bit b) (mag a / mag b))"

definition js_add :: "double \<Rightarrow> double \<Rightarrow> double" where
  "js_add a b =
     (if is_nan a \<or> is_nan b then NaN
      else if is_inf a then (if is_inf b \<and> a \<noteq> b then NaN else a)
      else if is_inf b then b
      else let v = dval a + dval b
           in if v = 0 then js_fin (sign_bit a \<and> sign_bit b) 0 else rnd (v < 0) \<bar>v\<bar>)"

text \<open>The comparisons \<open><\<close>, \<open><=\<close>, \<open>>\<close>, \<open>>=\<close> and \<open>===\<close>: false on not-a-number.\<close>

definition js_lt :: "double \<Rightarrow> double \<Rightarrow> bool" where
  "js_lt a b =
     (if is_nan a \<or> is_nan b then False
      else if a = NInf then b \<noteq> NInf
      else if b = PInf then a \<noteq> PInf
      else if a = PInf \<or> b = NInf then False
      else dval a < dval b)"

definition js_le :: "double \<Rightarrow> double \<Rightarrow> bool" where
  "js_le a b =
     (if is_nan a \<or> is_nan b then False
      else if a = NInf \<or> b = PInf then True
      else if a = PInf \<or> b = NInf then False
      else dval a \<le> dval b)"

definition js_gt :: "double \<Rightarrow> double \<Rightarrow> bool" where
  "js_gt a b = js_lt b a"

definition js_ge :: "double \<Rightarrow> double \<Rightarrow> bool" where
  "js_ge a b = js_le b a"

definition js_eq :: "double \<Rightarrow> double \<Rightarrow> bool" where
  "js_eq a b =
     (if is_nan a \<or> is_nan b then False
      else if is_inf a \<or> is_inf b then a = b
      else dval a = dval b)"

text \<open>A numeric literal denotes the Number nearest to its decimal value.\<close>

definition js_lit :: "rat \<Rightarrow> double" where
  "js_lit x = rnd False x"

section \<open>The calculator\<close>

record inputs =
  annualWaferDemand :: double
  waferCost :: double
  prepayment :: double
  priceDiscount :: double
  flexibilityBand :: double

record results =
  baseCost :: double
  prepaymentAmount :: double
  costSavings :: double
  flexibilityValue :: double
  baseROI :: double
  totalROI :: double

text \<open>
  The body of \<open>calculateResults\<close>, as a function of the \<open>inputs\<close> record that it reads.
\<close>

definition calculateResults :: "'a inputs_scheme \<Rightarrow> results" where
  "calculateResults i =
    (let baseCost = js_mul (annualWaferDemand i) (waferCost i);
         prepaymentAmount = js_mul baseCost (js_div (prepayment i) (js_lit 100));
         costSavings = js_mul baseCost (js_div (priceDiscount i) (js_lit 100));
         flexibilityValue =
           js_mul (js_mul baseCost (js_div (flexibilityBand i) (js_lit 100))) (js_lit (20 / 100));
         baseROI = js_mul (js_div costSavings prepaymentAmount) (js_lit 100);
         totalROI =
           js_mul (js_div (js_add costSavings flexibilityValue) prepaymentAmount) (js_lit 100)
     in \<lparr> baseCost = baseCost, prepaymentAmount = prepaymentAmount,
          costSavings = costSavings, flexibilityValue = flexibilityValue,
          baseROI = baseROI, totalROI = totalROI \<rparr>)"

text \<open>The initial state of the component (the argument of \<open>useState\<close>).\<close>

definition defaults :: inputs where
  "defaults = \<lparr> annualWaferDemand = js_lit 30000, waferCost = js_lit 8000,
      prepayment = js_lit 10, priceDiscount = js_lit 5, flexibilityBand = js_lit 30 \<rparr>"

text \<open>
  The component \<open>ROICalculator\<close> holds one piece of state, the \<open>inputs\<close> record of
  \<open>useState\<close>; the environment of a call may hold more. \<open>calculateResults\<close> takes no
  argument: it is a closure over the state of the component, and the component calls it
  once per render (\<open>const results = calculateResults()\<close>). A call is a computation on the
  state of the component. \<open>read_inputs f\<close> evaluates an expression \<open>f\<close> over the variable
  \<open>inputs\<close> as it is at that moment; the body of the closure is a sequence of \<open>const\<close>
  declarations, four of which read \<open>inputs\<close>, and a \<open>return\<close>.
\<close>

record component =
  inputs :: inputs

definition initial_component :: component where
  "initial_component = \<lparr> inputs = defaults \<rparr>"

definition read_inputs :: "(inputs \<Rightarrow> 'b) \<Rightarrow> ('a component_scheme, 'b) state" where
  "read_inputs f = do { s \<leftarrow> State_Monad.get; State_Monad.return (f (inputs s)) }"

definition calculateResults_call :: "('a component_scheme, results) state" where
  "calculateResults_call = do {
     baseCost \<leftarrow> read_inputs (\<lambda>i. js_mul (annualWaferDemand i) (waferCost i));
     prepaymentAmount \<leftarrow>
       read_inputs (\<lambda>i. js_mul baseCost (js_div (prepayment i) (js_lit 100)));
     costSavings \<leftarrow>
       read_inputs (\<lambda>i. js_mul baseCost (js_div (priceDiscount i) (js_lit 100)));
     flexibilityValue \<leftarrow>
       read_inputs (\<lambda>i. js_mul (js_mul baseCost (js_div (flexibilityBand i) (js_lit 100)))
                             (js_lit (20 / 100)));
     let baseROI = js_mul (js_div costSavings prepaymentAmount) (js_lit 100);
     let totalROI =
       js_mul (js_div (js_add costSavings flexibilityValue) prepaymentAmount) (js_lit 100);
     State_Monad.return
       \<lparr> baseCost = baseCost, prepaymentAmount = prepaymentAmount,
         costSavings = costSavings, flexibilityValue = flexibilityValue,
         baseROI = baseROI, totalROI = totalROI \<rparr>
   }"

text \<open>
  \<open>undefined_quotient a b\<close>: the quotient \<open>a / b\<close> is not-a-number, which it is when an
  operand is not-a-number, when both are 0, and when both are infinite.
\<close>

definition undefined_quotient :: "double \<Rightarrow> double \<Rightarrow> bool" where
  "undefined_quotient a b =
     (is_nan a \<or> is_nan b \<or> is_zero a \<and> is_zero b \<or> is_inf a \<and> is_inf b)"

text \<open>
  \<open>roi_defined i\<close>: the prepayment amount formed from the inputs is a finite Number other
  than 0, and the cost savings and the flexibility value formed from them are finite.
\<close>

definition roi_defined :: "'a inputs_scheme \<Rightarrow> bool" where
  "roi_defined i =
     (let b = js_mul (annualWaferDemand i) (waferCost i);
          pa = js_mul b (js_div (prepayment i) (js_lit 100));
          cs = js_mul b (js_div (priceDiscount i) (js_lit 100));
          fv = js_mul (js_mul b (js_div (flexibilityBand i) (js_lit 100))) (js_lit (20 / 100))
      in js_isFinite pa \<and> \<not> is_zero pa \<and> js_isFinite cs \<and> js_isFinite fv)"

definition finite_number :: "double \<Rightarrow> bool" where
  "finite_number a = (js_isFinite a \<and> is_double a)"

definition finite_inputs :: "'a inputs_scheme \<Rightarrow> bool" where
  "finite_inputs i =
     (finite_number (annualWaferDemand i) \<and> finite_number (waferCost i)
      \<and> finite_number (prepayment i) \<and> finite_number (priceDiscount i)
      \<and> finite_number (flexibilityBand i))"

text \<open>Further input records.\<close>

definition mk_inputs :: "rat \<Rightarrow> rat \<Rightarrow> rat \<Rightarrow> rat \<Rightarrow> rat \<Rightarrow> inputs" where
  "mk_inputs d w p pd fb = \<lparr> annualWaferDemand = Num d, waferCost = Num w,
      prepayment = Num p, priceDiscount = Num pd, flexibilityBand = Num fb \<rparr>"

text \<open>
  \<open>Number.MIN_VALUE\<close>, the least positive magnitude, and the least positive normal
  magnitude.
\<close>

definition MIN_VALUE :: rat where
  "MIN_VALUE = 2 powi (- 1074)"

definition MIN_NORMAL :: rat where
  "MIN_NORMAL = 2 powi (- 1022)"

text \<open>
  Doubling. \<open>twice a b\<close>: both are finite and \<open>b\<close> is exactly two times \<open>a\<close>.
  \<open>demand_doubled i j\<close>: the record \<open>j\<close> is \<open>i\<close> with twice the demand.
  \<open>no_underflow a b\<close>: the exact product of \<open>a\<close> and \<open>b\<close> is zero or has at least the
  least normal magnitude; \<open>products_normal i\<close>: this holds of the five products that
  \<open>calculateResults\<close> forms. \<open>monetary_finite r\<close>: the four monetary fields and the sum
  \<open>costSavings + flexibilityValue\<close> are finite.
\<close>

definition twice :: "double \<Rightarrow> double \<Rightarrow> bool" where
  "twice a b = (js_isFinite a \<and> js_isFinite b \<and> sign_bit b = sign_bit a \<and> mag b = 2 * mag a)"

definition demand_doubled :: "'a inputs_scheme \<Rightarrow> 'b inputs_scheme \<Rightarrow> bool" where
  "demand_doubled i j =
     (twice (annualWaferDemand i) (annualWaferDemand j)
      \<and> waferCost j = waferCost i \<and> prepayment j = prepayment i
      \<and> priceDiscount j = priceDiscount i \<and> flexibilityBand j = flexibilityBand i)"

definition no_underflow :: "double \<Rightarrow> double \<Rightarrow> bool" where
  "no_underflow a b = (is_zero a \<or> is_zero b \<or> MIN_NORMAL \<le> mag a * mag b)"

definition products_normal :: "'a inputs_scheme \<Rightarrow> bool" where
  "products_normal i =
     (let b = js_mul (annualWaferDemand i) (waferCost i);
          t = js_mul b (js_div (flexibilityBand i) (js_lit 100))
      in no_underflow (annualWaferDemand i) (waferCost i)
         \<and> no_underflow b (js_div (prepayment i) (js_lit 100))
         \<and> no_underflow b (js_div (priceDiscount i) (js_lit 100))
         \<and> no_underflow b (js_div (flexibilityBand i) (js_lit 100))
         \<and> no_underflow t (js_lit (20 / 100)))"

definition monetary_finite :: "results \<Rightarrow> bool" where
  "monetary_finite r =
     (js_isFinite (baseCost r) \<and> js_isFinite (prepaymentAmount r)
      \<and> js_isFinite (costSavings r) \<and> js_isFinite (flexibilityValue r)
      \<and> js_isFinite (js_add (costSavings r) (flexibilityValue r)))"






section \<open>Evaluation\<close>

lemma floor_rat_numeral_div:
  "\<lfloor>(numeral a :: rat) / numeral b\<rfloor> = numeral a div numeral b"
  by (metis floor_divide_of_int_eq of_int_numeral)

lemma ceiling_rat_numeral_div:
  "\<lceil>(numeral a :: rat) / numeral b\<rceil> = - ((- numeral a) div numeral b)"
  by (metis ceiling_divide_eq_div of_int_numeral)

lemmas round_eval = rnd_def round_mag_def ulp_exp_def rhe_def ilog2_def Let_def compute_bitlen
  floor_rat_numeral_div ceiling_rat_numeral_div js_inf_def js_fin_def

lemmas op_eval = js_mul_def js_div_def js_add_def js_lit_def round_eval

lemmas cmp_eval = js_lt_def js_le_def js_gt_def js_ge_def js_eq_def

lemma calc_baseCost:
  "baseCost (calculateResults i) = js_mul (annualWaferDemand i) (waferCost i)"
  by (simp add: calculateResults_def Let_def)

lemma calc_prepaymentAmount:
  "prepaymentAmount (calculateResults i) =
     js_mul (baseCost (calculateResults i)) (js_div (prepayment i) (js_lit 100))"
  by (simp add: calculateResults_def Let_def)

lemma calc_costSavings:
  "costSavings (calculateResults i) =
     js_mul (baseCost (calculateResults i)) (js_div (priceDiscount i) (js_lit 100))"
  by (simp add: calculateResults_def Let_def)

lemma calc_flexibilityValue:
  "flexibilityValue (calculateResults i) =
     js_mul (js_mul (baseCost (calculateResults i)) (js_div (flexibilityBand i) (js_lit 100)))
       (js_lit (1 / 5))"
  by (simp add: calculateResults_def Let_def)

lemma calc_baseROI:
  "baseROI (calculateResults i) =
     js_mul (js_div (costSavings (calculateResults i)) (prepaymentAmount (calculateResults i)))
       (js_lit 100)"
  by (simp add: calculateResults_def Let_def)

lemma calc_totalROI:
  "totalROI (calculateResults i) =
     js_mul (js_div (js_add (costSavings (calculateResults i))
                            (flexibilityValue (calculateResults i)))
                    (prepaymentAmount (calculateResults i)))
       (js_lit 100)"
  by (simp add: calculateResults_def Let_def)

lemma lit_100: "js_lit 100 = Num 100"
  by (simp add: js_lit_def round_eval)

lemma lit_020: "js_lit (1 / 5) = Num (3602879701896397 / 18014398509481984)"
  by (simp add: js_lit_def round_eval)

lemma lit_0: "js_lit 0 = Num 0"
  by (simp add: js_lit_def rnd_def round_mag_def js_fin_def)

lemma defaults_fields:
  "annualWaferDemand defaults = Num 30000" "waferCost defaults = Num 8000"
  "prepayment defaults = Num 10" "priceDiscount defaults = Num 5"
  "flexibilityBand defaults = Num 30"
  by (simp_all add: defaults_def js_lit_def round_eval)

lemma mk_inputs_fields:
  "annualWaferDemand (mk_inputs d w p pd fb) = Num d" "waferCost (mk_inputs d w p pd fb) = Num w"
  "prepayment (mk_inputs d w p pd fb) = Num p" "priceDiscount (mk_inputs d w p pd fb) = Num pd"
  "flexibilityBand (mk_inputs d w p pd fb) = Num fb"
  by (simp_all add: mk_inputs_def)

lemma defaults_mk: "defaults = mk_inputs 30000 8000 10 5 30"
  by (simp add: defaults_def mk_inputs_def js_lit_def round_eval)

text \<open>Evaluating the calculator one assignment at a time.\<close>

lemma calculateResults_eval:
  assumes "js_mul (annualWaferDemand i) (waferCost i) = b"
    and "js_mul b (js_div (prepayment i) (Num 100)) = pa"
    and "js_mul b (js_div (priceDiscount i) (Num 100)) = cs"
    and "js_mul (js_mul b (js_div (flexibilityBand i) (Num 100)))
           (Num (3602879701896397 / 18014398509481984)) = fv"
    and "js_mul (js_div cs pa) (Num 100) = br"
    and "js_mul (js_div (js_add cs fv) pa) (Num 100) = tr"
  shows "calculateResults i = \<lparr> baseCost = b, prepaymentAmount = pa, costSavings = cs,
           flexibilityValue = fv, baseROI = br, totalROI = tr \<rparr>"
  using assms by (simp add: calculateResults_def Let_def lit_100 lit_020)

text \<open>A call of the closure computes the body on the \<open>inputs\<close> of the state.\<close>

lemma read_inputs_run: "run_state (read_inputs f) s = (f (inputs s), s)"
  by (simp add: read_inputs_def)

lemma calculateResults_call_run:
  "run_state calculateResults_call s = (calculateResults (inputs s), s)"
  by (simp add: calculateResults_call_def calculateResults_def read_inputs_run Let_def)

section \<open>Properties of rounding\<close>

subsection \<open>Powers of two, binary exponents, integer rounding\<close>

lemma p2_pos: "0 < (2::rat) powi k"
  by simp

lemma p2_less_iff: "(2::rat) powi a < 2 powi b \<longleftrightarrow> a < b"
proof
  assume h: "(2::rat) powi a < 2 powi b"
  show "a < b"
  proof (rule ccontr)
    assume "\<not> a < b"
    then have "b \<le> a" by simp
    then have "(2::rat) powi b \<le> 2 powi a" by (intro power_int_increasing) auto
    with h show False by simp
  qed
next
  assume "a < b"
  then show "(2::rat) powi a < 2 powi b" by (intro power_int_strict_increasing) auto
qed

lemma p2_le_iff: "(2::rat) powi a \<le> 2 powi b \<longleftrightarrow> a \<le> b"
  using p2_less_iff[of b a] by (auto simp: not_less[symmetric])

lemma p2_add: "(2::rat) powi (a + b) = 2 powi a * 2 powi b"
  by (simp add: power_int_add)

lemma p2_diff: "(2::rat) powi (a - b) = 2 powi a / 2 powi b"
  by (simp add: power_int_diff)

lemma p2_Suc: "(2::rat) powi (a + 1) = 2 * 2 powi a"
  by (simp add: power_int_add)

lemma p2_of_int: "0 \<le> k \<Longrightarrow> (2::rat) powi k = of_int (2 ^ nat k)"
  by (simp add: power_int_def)

lemma ilog2_bounds:
  assumes "0 < x"
  shows "2 powi ilog2 x \<le> x \<and> x < 2 powi (ilog2 x + 1)"
proof (cases "1 \<le> x")
  case True
  define n where "n = \<lfloor>x\<rfloor>"
  have n1: "1 \<le> n" using True by (simp add: n_def)
  have b: "2 ^ nat (bitlen n - 1) \<le> n \<and> n < 2 ^ nat (bitlen n)"
    using bitlen_bounds[of n] n1 by simp
  have bl: "1 \<le> bitlen n" using n1 bitlen_ge_iff_power[of 1 n] by simp
  have "(2::rat) powi (bitlen n - 1) = of_int (2 ^ nat (bitlen n - 1))"
    using bl by (simp add: p2_of_int)
  also have "\<dots> \<le> of_int n" using b by (simp only: of_int_le_iff)
  also have "\<dots> \<le> x" by (simp add: n_def)
  finally have lo: "2 powi (bitlen n - 1) \<le> x" .
  have "x < of_int (n + 1)" using floor_correct[of x] by (simp add: n_def)
  also have "\<dots> \<le> of_int (2 ^ nat (bitlen n))" using b by (simp only: of_int_le_iff) simp
  also have "\<dots> = (2::rat) powi (bitlen n)" using bl by (simp add: p2_of_int)
  finally have hi: "x < 2 powi (bitlen n)" .
  show ?thesis using lo hi True by (simp add: ilog2_def n_def)
next
  case False
  define y where "y = 1 / x"
  define m where "m = \<lceil>y\<rceil> - 1"
  have y1: "1 < y" using False assms by (simp add: y_def)
  have m1: "1 \<le> m" using y1 by (simp add: m_def less_ceiling_iff)
  have my: "of_int m < y" "y \<le> of_int m + 1" using ceiling_correct[of y] by (simp_all add: m_def) 
  have b: "2 ^ nat (bitlen m - 1) \<le> m \<and> m < 2 ^ nat (bitlen m)"
    using bitlen_bounds[of m] m1 by simp
  have bl: "1 \<le> bitlen m" using m1 bitlen_ge_iff_power[of 1 m] by simp
  have "y \<le> of_int (m + 1)" using my by simp
  also have "\<dots> \<le> of_int (2 ^ nat (bitlen m))" using b by (simp only: of_int_le_iff) simp
  also have "\<dots> = (2::rat) powi (bitlen m)" using bl by (simp add: p2_of_int)
  finally have yhi: "y \<le> 2 powi (bitlen m)" .
  have "(2::rat) powi (bitlen m - 1) = of_int (2 ^ nat (bitlen m - 1))"
    using bl by (simp add: p2_of_int)
  also have "\<dots> \<le> of_int m" using b by (simp only: of_int_le_iff)
  also have "\<dots> < y" using my by simp
  finally have ylo: "2 powi (bitlen m - 1) < y" .
  have lo: "2 powi (- bitlen m) \<le> x"
    using yhi assms p2_pos[of "bitlen m"] by (simp add: y_def power_int_minus field_simps)
  have "x < 2 powi (- (bitlen m - 1))"
    using ylo assms p2_pos[of "bitlen m - 1"] unfolding power_int_minus[of _ "bitlen m - 1"] by (simp add: y_def field_simps)
  then have hi: "x < 2 powi (- bitlen m + 1)" by (simp add: algebra_simps)
  show ?thesis using lo hi False by (simp add: ilog2_def m_def y_def)
qed

lemma ilog2_unique:
  assumes "2 powi k \<le> x" "x < 2 powi (k + 1)"
  shows "ilog2 x = k"
proof -
  have x: "0 < x" using assms(1) p2_pos[of k] by linarith
  note b = ilog2_bounds[OF x]
  have "(2::rat) powi k < 2 powi (ilog2 x + 1)" using assms b by linarith
  then have 1: "k < ilog2 x + 1" by (simp add: p2_less_iff)
  have "(2::rat) powi ilog2 x < 2 powi (k + 1)" using assms b by linarith
  then have 2: "ilog2 x < k + 1" by (simp add: p2_less_iff)
  from 1 2 show ?thesis by simp
qed

lemma ilog2_mono:
  assumes "0 < x" "x \<le> y"
  shows "ilog2 x \<le> ilog2 y"
proof -
  have y: "0 < y" using assms by simp
  have "(2::rat) powi ilog2 x < 2 powi (ilog2 y + 1)"
    using ilog2_bounds[OF assms(1)] ilog2_bounds[OF y] assms(2) by linarith
  then show ?thesis by (simp add: p2_less_iff)
qed

lemma ilog2_scale:
  assumes "0 < x"
  shows "ilog2 (x * 2 powi j) = ilog2 x + j"
proof (rule ilog2_unique)
  note b = ilog2_bounds[OF assms]
  show "2 powi (ilog2 x + j) \<le> x * 2 powi j"
    using b p2_pos[of j] by (simp add: p2_add)
  have "x * 2 powi j < 2 powi (ilog2 x + 1) * 2 powi j"
    using b p2_pos[of j] by (simp del: zero_less_power_int)
  also have "\<dots> = 2 powi (ilog2 x + j + 1)"
    by (simp add: p2_add)
  finally show "x * 2 powi j < 2 powi (ilog2 x + j + 1)" .
qed

lemma ilog2_double: "0 < x \<Longrightarrow> ilog2 (2 * x) = ilog2 x + 1"
  using ilog2_scale[of x 1] by (simp add: mult.commute)

lemma rhe_of_int: "rhe (of_int n) = n"
  by (simp add: rhe_def)

lemma rhe_err: "\<bar>of_int (rhe q) - q\<bar> \<le> 1 / 2"
  using floor_correct[of q] by (auto simp: rhe_def Let_def)

lemma rhe_mono:
  assumes "p \<le> q"
  shows "rhe p \<le> rhe q"
proof (cases "\<lfloor>p\<rfloor> = \<lfloor>q\<rfloor>")
  case True
  then show ?thesis using assms by (auto simp: rhe_def Let_def)
next
  case False
  then have "\<lfloor>p\<rfloor> + 1 \<le> \<lfloor>q\<rfloor>" using floor_mono[OF assms] by simp
  moreover have "rhe p \<le> \<lfloor>p\<rfloor> + 1" by (auto simp: rhe_def Let_def)
  moreover have "\<lfloor>q\<rfloor> \<le> rhe q" by (auto simp: rhe_def Let_def)
  ultimately show ?thesis by linarith
qed

lemma rhe_le: "q \<le> of_int n \<Longrightarrow> rhe q \<le> n"
  using rhe_mono[of q "of_int n"] by (simp add: rhe_of_int)

lemma rhe_ge: "of_int n \<le> q \<Longrightarrow> n \<le> rhe q"
  using rhe_mono[of "of_int n" q] by (simp add: rhe_of_int)

subsection \<open>Rounding a magnitude\<close>

lemma round_mag_0: "round_mag 0 = 0"
  by (simp add: round_mag_def)

lemma rhe_nonneg: "0 \<le> q \<Longrightarrow> 0 \<le> rhe q"
  using rhe_ge[of 0 q] by simp

lemma round_mag_nonneg: "0 \<le> x \<Longrightarrow> 0 \<le> round_mag x"
  by (simp add: round_mag_def rhe_nonneg)

lemma ulp_exp_ge: "- 1074 \<le> ulp_exp x"
  by (simp add: ulp_exp_def)

lemma round_mag_le_p2:
  assumes "0 < x" "x \<le> 2 powi k" "ulp_exp x \<le> k"
  shows "round_mag x \<le> 2 powi k"
proof -
  define e where "e = ulp_exp x"
  have "x / 2 powi e \<le> 2 powi k / 2 powi e"
    using assms(2) p2_pos[of e] by (simp add: divide_right_mono)
  also have "\<dots> = 2 powi (k - e)" by (simp add: p2_diff)
  also have "\<dots> = of_int (2 ^ nat (k - e))" using assms(3) by (simp add: p2_of_int e_def)
  finally have "rhe (x / 2 powi e) \<le> 2 ^ nat (k - e)" by (rule rhe_le)
  then have "(of_int (rhe (x / 2 powi e)) :: rat) \<le> of_int (2 ^ nat (k - e))"
    by (simp only: of_int_le_iff)
  also have "\<dots> = 2 powi (k - e)" using assms(3) by (simp add: p2_of_int e_def)
  finally have "(of_int (rhe (x / 2 powi e)) :: rat) * 2 powi e \<le> 2 powi (k - e) * 2 powi e"
    using p2_pos[of e] by (simp del: zero_less_power_int)
  also have "\<dots> = 2 powi k" by (simp flip: p2_add)
  finally show ?thesis using assms(1) by (simp add: round_mag_def e_def)
qed

lemma round_mag_ge_p2:
  assumes "2 powi k \<le> x" "ulp_exp x \<le> k"
  shows "2 powi k \<le> round_mag x"
proof -
  define e where "e = ulp_exp x"
  have x: "0 < x" using assms(1) p2_pos[of k] by linarith
  have "(2::rat) powi (k - e) = 2 powi k / 2 powi e" by (simp add: p2_diff)
  also have "\<dots> \<le> x / 2 powi e"
    using assms(1) p2_pos[of e] by (simp add: divide_right_mono)
  finally have "of_int (2 ^ nat (k - e)) \<le> x / 2 powi e"
    using assms(2) by (simp add: p2_of_int e_def)
  then have "2 ^ nat (k - e) \<le> rhe (x / 2 powi e)" by (rule rhe_ge)
  then have "(of_int (2 ^ nat (k - e)) :: rat) \<le> of_int (rhe (x / 2 powi e))"
    by (simp only: of_int_le_iff)
  then have "2 powi (k - e) \<le> (of_int (rhe (x / 2 powi e)) :: rat)"
    using assms(2) by (simp add: p2_of_int e_def)
  then have "2 powi (k - e) * 2 powi e \<le> (of_int (rhe (x / 2 powi e)) :: rat) * 2 powi e"
    using p2_pos[of e] by (simp del: zero_less_power_int)
  then have "2 powi k \<le> (of_int (rhe (x / 2 powi e)) :: rat) * 2 powi e" by (simp flip: p2_add)
  then show ?thesis using x by (simp add: round_mag_def e_def)
qed

lemma round_mag_mono:
  assumes "0 \<le> x" "x \<le> y"
  shows "round_mag x \<le> round_mag y"
proof (cases "x = 0")
  case True
  then show ?thesis using assms round_mag_nonneg[of y] by (simp add: round_mag_0)
next
  case False
  then have x: "0 < x" and y: "0 < y" using assms by simp_all
  have ee: "ulp_exp x \<le> ulp_exp y"
    using ilog2_mono[OF x assms(2)] by (simp add: ulp_exp_def)
  show ?thesis
  proof (cases "ulp_exp x = ulp_exp y")
    case True
    have "x / 2 powi ulp_exp y \<le> y / 2 powi ulp_exp y"
      using assms(2) p2_pos[of "ulp_exp y"] by (simp add: divide_right_mono)
    then have "rhe (x / 2 powi ulp_exp y) \<le> rhe (y / 2 powi ulp_exp y)" by (rule rhe_mono)
    then have "(of_int (rhe (x / 2 powi ulp_exp y)) :: rat) \<le> of_int (rhe (y / 2 powi ulp_exp y))"
      by (simp only: of_int_le_iff)
    then have "(of_int (rhe (x / 2 powi ulp_exp y)) :: rat) * 2 powi ulp_exp y
        \<le> of_int (rhe (y / 2 powi ulp_exp y)) * 2 powi ulp_exp y"
      using p2_pos[of "ulp_exp y"] by (simp del: zero_less_power_int)
    then show ?thesis using x y True by (simp add: round_mag_def)
  next
    case False
    with ee have lt: "ulp_exp x < ulp_exp y" by simp
    then have ey: "ulp_exp y = ilog2 y - 52" "- 1074 < ilog2 y - 52"
      using ulp_exp_ge[of x] unfolding ulp_exp_def by linarith+
    have kk: "ilog2 x < ilog2 y" using lt unfolding ulp_exp_def by linarith
    define K where "K = max (ilog2 x + 1) (- 1074)"
    have "x \<le> 2 powi (ilog2 x + 1)" using ilog2_bounds[OF x] by simp
    also have "\<dots> \<le> 2 powi K" by (simp add: p2_le_iff K_def)
    finally have "round_mag x \<le> 2 powi K"
      by (rule round_mag_le_p2[OF x]) (simp add: ulp_exp_def K_def)
    also have "\<dots> \<le> 2 powi ilog2 y" using kk ey by (simp add: p2_le_iff K_def)
    also have "\<dots> \<le> round_mag y"
      using ilog2_bounds[OF y] ey by (intro round_mag_ge_p2) simp_all
    finally show ?thesis .
  qed
qed

lemma round_mag_p2:
  assumes "- 1074 \<le> k"
  shows "round_mag (2 powi k) = 2 powi k"
proof -
  have i: "ilog2 (2 powi k) = k" by (rule ilog2_unique) (simp_all add: p2_less_iff)
  have e: "ulp_exp (2 powi k) \<le> k" using assms by (simp add: ulp_exp_def i)
  have "round_mag (2 powi k) \<le> 2 powi k" using e by (intro round_mag_le_p2) simp_all
  moreover have "2 powi k \<le> round_mag (2 powi k)" using e by (intro round_mag_ge_p2) simp_all
  ultimately show ?thesis by simp
qed

lemma round_mag_lower:
  assumes "- 1074 \<le> k" "2 powi k \<le> x"
  shows "2 powi k \<le> round_mag x"
  using round_mag_mono[of "2 powi k" x] assms by (simp add: round_mag_p2)

lemma round_mag_upper:
  assumes "- 1074 \<le> k" "0 \<le> x" "x \<le> 2 powi k"
  shows "round_mag x \<le> 2 powi k"
  using round_mag_mono[of x "2 powi k"] assms by (simp add: round_mag_p2)

lemma round_mag_scale:
  assumes "2 powi (- 1022) \<le> x" "2 powi (- 1022) \<le> x * 2 powi j"
  shows "round_mag (x * 2 powi j) = round_mag x * 2 powi j"
proof -
  have x: "0 < x" using assms(1) p2_pos[of "- 1022"] by linarith
  have k1: "- 1022 \<le> ilog2 x"
    using ilog2_mono[of "2 powi (- 1022)" x] assms(1) ilog2_unique[of "- 1022" "2 powi (- 1022)"]
    by (simp add: p2_less_iff)
  have k2: "- 1022 \<le> ilog2 (x * 2 powi j)"
    using ilog2_mono[of "2 powi (- 1022)" "x * 2 powi j"] assms(2)
      ilog2_unique[of "- 1022" "2 powi (- 1022)"]
    by (simp add: p2_less_iff)
  have e1: "ulp_exp x = ilog2 x - 52" using k1 by (simp add: ulp_exp_def)
  have e2: "ulp_exp (x * 2 powi j) = ilog2 x - 52 + j"
    using k2 by (simp add: ulp_exp_def ilog2_scale[OF x])
  have q: "x * 2 powi j / 2 powi (ilog2 x - 52 + j) = x / 2 powi (ilog2 x - 52)"
    by (simp add: p2_add)
  show ?thesis using x by (simp add: round_mag_def e1 e2 q p2_add)
qed

lemma round_mag_double:
  assumes "2 powi (- 1022) \<le> x"
  shows "round_mag (2 * x) = 2 * round_mag x"
proof -
  have "0 < x" using assms p2_pos[of "- 1022"] by linarith
  then have "2 powi (- 1022) \<le> x * 2 powi 1" using assms by simp
  from round_mag_scale[OF assms this] show ?thesis by (simp add: mult.commute)
qed

lemma round_mag_rel_err:
  assumes "2 powi (- 1022) \<le> x"
  shows "\<bar>round_mag x - x\<bar> \<le> x * 2 powi (- 53)"
proof -
  have x: "0 < x" using assms(1) p2_pos[of "- 1022"] by linarith
  have k1: "- 1022 \<le> ilog2 x"
    using ilog2_mono[of "2 powi (- 1022)" x] assms(1) ilog2_unique[of "- 1022" "2 powi (- 1022)"]
    by (simp add: p2_less_iff)
  define e where "e = ilog2 x - 52"
  have e1: "ulp_exp x = e" using k1 by (simp add: ulp_exp_def e_def)
  define q where "q = x / 2 powi e"
  have xq: "x = q * 2 powi e" by (simp add: q_def)
  have "round_mag x - x = (of_int (rhe q) - q) * 2 powi e"
    using x by (simp add: round_mag_def e1 q_def left_diff_distrib)
  then have "\<bar>round_mag x - x\<bar> = \<bar>of_int (rhe q) - q\<bar> * 2 powi e"
    by (simp add: abs_mult)
  also have "\<dots> \<le> 1 / 2 * 2 powi e"
    using rhe_err[of q] p2_pos[of e] by (intro mult_right_mono) simp_all
  also have "\<dots> = 2 powi ilog2 x * 2 powi (- 53)"
    by (simp add: e_def p2_diff power_int_minus)
  also have "\<dots> \<le> x * 2 powi (- 53)"
    using ilog2_bounds[OF x] by (intro mult_right_mono) simp_all
  finally show ?thesis .
qed

lemma rhe_le_p2: "q \<le> 2 ^ n \<Longrightarrow> rhe q \<le> 2 ^ n"
  using rhe_le[of q "2 ^ n"] by simp

lemma round_mag_int_grid:
  assumes "0 \<le> n" "n \<le> 2 ^ 53" "- 1074 \<le> e"
  shows "round_mag (of_int n * 2 powi e) = of_int n * 2 powi e"
proof (cases "n = 0 \<or> n = 2 ^ 53")
  case True
  then show ?thesis
  proof
    assume "n = 0" then show ?thesis by (simp add: round_mag_0)
  next
    assume n: "n = 2 ^ 53"
    have "(of_int n :: rat) * 2 powi e = 2 powi (53 + e)"
      by (simp add: n p2_add)
    then show ?thesis using assms(3) by (simp add: round_mag_p2)
  qed
next
  case False
  define y :: rat where "y = of_int n * 2 powi e"
  have n: "0 < n" "n < 2 ^ 53" using False assms by simp_all
  have y: "0 < y" using n by (simp add: y_def)
  have "of_int n < (of_int (2 ^ 53) :: rat)" using n(2) by (simp only: of_int_less_iff)
  then have "y < 2 powi 53 * 2 powi e" by (simp add: y_def)
  then have "y < 2 powi (e + 53)" by (simp add: p2_add)
  then have "2 powi ilog2 y < (2::rat) powi (e + 53)"
    using ilog2_bounds[OF y] by linarith
  then have "ilog2 y < e + 53" by (simp only: p2_less_iff)
  then have e': "ulp_exp y \<le> e" using assms(3) by (simp add: ulp_exp_def)
  define j where "j = nat (e - ulp_exp y)"
  have "y / 2 powi ulp_exp y = of_int n * 2 powi (e - ulp_exp y)"
    by (simp add: y_def p2_diff)
  also have "\<dots> = of_int (n * 2 ^ j)"
    using e' by (simp add: p2_of_int j_def)
  finally have "rhe (y / 2 powi ulp_exp y) = n * 2 ^ j" by (simp only: rhe_of_int)
  then have "round_mag y = of_int (n * 2 ^ j) * 2 powi ulp_exp y"
    using y by (simp add: round_mag_def)
  also have "\<dots> = of_int n * (2 powi (e - ulp_exp y) * 2 powi ulp_exp y)"
    using e' by (simp add: p2_of_int j_def)
  also have "\<dots> = y" by (simp add: y_def flip: p2_add)
  finally show ?thesis by (simp add: y_def)
qed

lemma round_mag_idem:
  assumes "0 \<le> x"
  shows "round_mag (round_mag x) = round_mag x"
proof (cases "x = 0")
  case True
  then show ?thesis by (simp add: round_mag_0)
next
  case False
  then have x: "0 < x" using assms by simp
  define e where "e = ulp_exp x"
  define n where "n = rhe (x / 2 powi e)"
  have rm: "round_mag x = of_int n * 2 powi e"
    using x by (simp add: round_mag_def e_def n_def)
  have e: "- 1074 \<le> e" "ilog2 x - 52 \<le> e" by (simp_all add: e_def ulp_exp_def)
  have "x < 2 powi (ilog2 x + 1)" using ilog2_bounds[OF x] by simp
  also have "\<dots> \<le> 2 powi (e + 53)" using e(2) by (simp only: p2_le_iff)
  finally have "x / 2 powi e < 2 powi (e + 53) / 2 powi e"
    by (simp add: divide_strict_right_mono)
  then have "x / 2 powi e < 2 ^ 53" by (simp add: p2_add)
  then have n2: "n \<le> 2 ^ 53" unfolding n_def by (intro rhe_le_p2) simp
  have n0: "0 \<le> n" unfolding n_def using x by (intro rhe_nonneg) simp
  show ?thesis unfolding rm using n0 n2 e(1) by (rule round_mag_int_grid)
qed

section \<open>Properties of the operators\<close>

subsection \<open>Operators on special values\<close>


lemma rnd_0: "rnd s 0 = js_fin s 0"
  by (simp add: rnd_def round_mag_0)

lemma is_zero_fin: "is_zero (js_fin s m) \<longleftrightarrow> m = 0"
  by (simp add: js_fin_def)

lemma js_isFinite_fin: "js_isFinite (js_fin s m)"
  by (simp add: js_fin_def)

lemma is_nan_fin: "\<not> is_nan (js_fin s m)"
  by (simp add: js_fin_def)

lemma is_inf_fin: "\<not> is_inf (js_fin s m)"
  by (simp add: js_fin_def)

lemma is_nan_inf: "\<not> is_nan (js_inf s)"
  by (simp add: js_inf_def)

lemma is_inf_inf: "is_inf (js_inf s)"
  by (simp add: js_inf_def)

lemma is_zero_inf: "\<not> is_zero (js_inf s)"
  by (simp add: js_inf_def)

lemma js_isFinite_inf: "\<not> js_isFinite (js_inf s)"
  by (simp add: js_inf_def)

lemma is_nan_rnd: "\<not> is_nan (rnd s x)"
  by (simp add: rnd_def Let_def is_nan_fin is_nan_inf)

lemma is_zero_finite: "is_zero a \<Longrightarrow> js_isFinite a"
  by (cases a) simp_all

lemma is_zero_mag: "is_zero a \<longleftrightarrow> js_isFinite a \<and> mag a = 0"
  by (cases a) simp_all

lemma finite_flags: "js_isFinite a \<Longrightarrow> \<not> is_nan a \<and> \<not> is_inf a"
  by (cases a) simp_all

lemma js_eq_zero: "js_eq a (js_lit 0) \<longleftrightarrow> is_zero a"
  by (cases a) (simp_all add: js_eq_def lit_0)

lemma mag_nonneg: "0 \<le> mag a"
  by (cases a) simp_all

lemma js_mul_zero_left: "is_zero a \<Longrightarrow> js_isFinite b \<Longrightarrow> is_zero (js_mul a b)"
  by (cases a; cases b) (simp_all add: js_mul_def rnd_0 is_zero_fin)

lemma js_mul_zero_right: "js_isFinite a \<Longrightarrow> is_zero b \<Longrightarrow> is_zero (js_mul a b)"
  by (cases a; cases b) (simp_all add: js_mul_def rnd_0 is_zero_fin)

lemma js_div_zero_zero: "is_zero a \<Longrightarrow> is_zero b \<Longrightarrow> js_div a b = NaN"
  by (cases a; cases b) (simp_all add: js_div_def)

lemma js_add_zero_zero: "is_zero a \<Longrightarrow> is_zero b \<Longrightarrow> is_zero (js_add a b)"
  by (cases a; cases b) (simp_all add: js_add_def is_zero_fin)

lemma js_mul_NaN_left: "js_mul NaN b = NaN"
  by (simp add: js_mul_def)

lemma js_div_100_finite:
  assumes "js_isFinite a" "mag a < 2 powi 1024"
  shows "js_isFinite (js_div a (Num 100))"
proof -
  have "mag a / 100 \<le> mag a / 64" using mag_nonneg[of a] by (simp add: field_simps)
  also have "\<dots> < 2 powi 1024 / 2 powi 6" using assms(2) by (simp add: divide_strict_right_mono)
  also have "\<dots> = 2 powi 1018" by (simp flip: p2_diff)
  finally have "mag a / 100 \<le> 2 powi 1018" by simp
  moreover have "0 \<le> mag a / 100" using mag_nonneg[of a] by simp
  ultimately have "round_mag (mag a / 100) \<le> 2 powi 1018"
    by (intro round_mag_upper) simp_all
  also have "\<dots> < (2::rat) powi 1024" by (simp only: p2_less_iff)
  finally have "\<not> 2 powi 1024 \<le> round_mag (mag a / 100)" by simp
  then show ?thesis
    using assms(1) by (simp add: js_div_def finite_flags rnd_def Let_def js_isFinite_fin del: power_int_numeral)
qed

lemma finite_number_div_100: "finite_number a \<Longrightarrow> js_isFinite (js_div a (Num 100))"
  by (simp add: finite_number_def is_double_def js_div_100_finite)

lemma js_div_pos_by_pos_zero:
  assumes "js_gt a (Num 0)"
  shows "js_div a (Num 0) = PInf"
  using assms by (cases a) (simp_all add: js_div_def cmp_eval js_inf_def)

lemma js_mul_PInf_100: "js_mul PInf (Num 100) = PInf"
  by (simp add: js_mul_def js_inf_def)

lemma js_gt_zero_not_zero: "js_gt a (Num 0) \<Longrightarrow> \<not> is_zero a"
  by (cases a) (simp_all add: cmp_eval)

lemma js_eq_Num_0: "js_eq a (Num 0) \<longleftrightarrow> is_zero a"
  using js_eq_zero[of a] by (simp add: lit_0)

lemma js_mul_zero_or_nan:
  "is_zero a \<or> is_nan a \<Longrightarrow> is_zero (js_mul a b) \<or> is_nan (js_mul a b)"
  by (cases a; cases b) (simp_all add: js_mul_def rnd_0 is_zero_fin)

lemma js_add_zero_or_nan:
  "is_zero a \<or> is_nan a \<Longrightarrow> is_zero b \<or> is_nan b
     \<Longrightarrow> is_zero (js_add a b) \<or> is_nan (js_add a b)"
  by (cases a; cases b) (simp_all add: js_add_def is_zero_fin)

lemma zero_or_nan_not_gt: "is_zero a \<or> is_nan a \<Longrightarrow> \<not> js_gt a (Num 0)"
  by (cases a) (simp_all add: cmp_eval)

lemma js_div_zero_by_zero_100: "is_zero a \<Longrightarrow> is_zero b \<Longrightarrow> is_nan (js_mul (js_div a b) c)"
  by (simp add: js_div_zero_zero js_mul_NaN_left)

lemma finite_number_0: "finite_number (Num 0)"
  by (simp add: finite_number_def is_double_def round_mag_0)

lemma finite_number_defaults:
  "finite_number (Num 30000)" "finite_number (Num 8000)" "finite_number (Num 10)"
  "finite_number (Num 5)" "finite_number (Num 30)"
  by (simp_all add: finite_number_def is_double_def round_eval)

lemma js_div_zero_100: "is_zero a \<Longrightarrow> is_zero (js_div a (Num 100))"
  by (cases a) (simp_all add: js_div_def rnd_0 is_zero_fin)

lemma js_div_zero_by_nonzero:
  "is_zero a \<Longrightarrow> \<not> is_zero b \<Longrightarrow> \<not> is_nan b \<Longrightarrow> is_zero (js_div a b)"
  by (cases a; cases b) (simp_all add: js_div_def rnd_0 is_zero_fin)

lemma js_mul_finite_not_nan: "js_isFinite a \<Longrightarrow> js_isFinite b \<Longrightarrow> \<not> is_nan (js_mul a b)"
  by (cases a; cases b) (simp_all add: js_mul_def is_nan_rnd)

lemma tenth_finite: "js_isFinite (js_div (Num 10) (Num 100))"
  by (simp add: op_eval)

lemma js_eq_same: "js_eq a a \<longleftrightarrow> \<not> is_nan a"
  by (simp add: js_eq_def)

lemma js_div_by_finite_not_nan:
  "\<not> is_nan a \<Longrightarrow> js_isFinite b \<Longrightarrow> \<not> is_zero b \<Longrightarrow> \<not> is_nan (js_div a b)"
  by (cases a; cases b) (simp_all add: js_div_def is_nan_rnd is_nan_inf)

lemma js_add_finite_not_nan: "js_isFinite a \<Longrightarrow> js_isFinite b \<Longrightarrow> \<not> is_nan (js_add a b)"
  by (cases a; cases b) (simp_all add: js_add_def Let_def is_nan_rnd is_nan_fin)

lemma roi_defined_results:
  "roi_defined i \<longleftrightarrow>
     js_isFinite (prepaymentAmount (calculateResults i))
     \<and> \<not> is_zero (prepaymentAmount (calculateResults i))
     \<and> js_isFinite (costSavings (calculateResults i))
     \<and> js_isFinite (flexibilityValue (calculateResults i))"
  by (simp add: roi_defined_def calculateResults_def Let_def)

lemma is_nan_js_div_iff: "is_nan (js_div a b) \<longleftrightarrow> undefined_quotient a b"
  by (cases a; cases b)
     (simp_all add: js_div_def undefined_quotient_def is_nan_rnd is_nan_inf is_nan_fin)

lemma is_nan_js_mul_100_iff: "is_nan (js_mul a (Num 100)) \<longleftrightarrow> is_nan a"
  by (cases a) (simp_all add: js_mul_def is_nan_rnd is_nan_inf)

subsection \<open>Order\<close>

lemma dval_fin: "dval (js_fin s m) = (if s then - m else m)"
  by (simp add: js_fin_def)

lemma mag_fin: "0 \<le> m \<Longrightarrow> mag (js_fin s m) = m"
  by (simp add: js_fin_def)

lemma fin_sign_mag: "js_isFinite a \<Longrightarrow> js_fin (sign_bit a) (mag a) = a"
  by (cases a) (auto simp: js_fin_def)

lemma dval_sign_mag: "dval a = (if sign_bit a then - mag a else mag a)"
  by (cases a) auto

lemma js_le_fin: "js_le (js_fin s m) (js_fin t n) \<longleftrightarrow> (if s then - m else m) \<le> (if t then - n else n)"
  by (simp add: js_le_def is_nan_fin dval_fin) (simp add: js_fin_def)

lemma js_le_fin_inf: "js_le (js_fin s m) (js_inf t) \<longleftrightarrow> \<not> t"
  by (simp add: js_le_def js_fin_def js_inf_def)

lemma js_le_inf_fin: "js_le (js_inf s) (js_fin t n) \<longleftrightarrow> s"
  by (simp add: js_le_def js_fin_def js_inf_def)

lemma js_le_inf_inf: "js_le (js_inf s) (js_inf t) \<longleftrightarrow> s \<or> \<not> t"
  by (simp add: js_le_def js_inf_def)

lemma signed_mult: "(if s then - (m * c) else m * c) = (if s then - m else m) * (c::rat)"
  by simp

lemma signed_divide: "(if s then - (m / c) else m / c) = (if s then - m else m) / (c::rat)"
  by simp

lemma p2_not_le_0: "\<not> (2::rat) powi k \<le> 0"
  using p2_pos[of k] by linarith

lemma rnd_mono:
  assumes "0 \<le> x" "0 \<le> y" "(if s then - x else x) \<le> (if t then - y else y)"
  shows "js_le (rnd s x) (rnd t y)"
proof -
  have nx: "0 \<le> round_mag x" and ny: "0 \<le> round_mag y"
    using assms by (simp_all add: round_mag_nonneg)
  consider "\<not> s" "\<not> t" | "s" "\<not> t" | "\<not> s" "t" | "s" "t" by blast
  then show ?thesis
  proof cases
    case 1
    then have "round_mag x \<le> round_mag y" using assms by (simp add: round_mag_mono)
    then show ?thesis using 1
      by (simp add: rnd_def Let_def js_le_fin js_le_fin_inf js_le_inf_fin js_le_inf_inf
            del: power_int_numeral)
  next
    case 2
    then show ?thesis using nx ny
      by (simp add: rnd_def Let_def js_le_fin js_le_fin_inf js_le_inf_fin js_le_inf_inf
            del: power_int_numeral)
  next
    case 3
    then have "x = 0" "y = 0" using assms by simp_all
    then show ?thesis using 3
      by (simp add: rnd_def Let_def round_mag_0 js_le_fin p2_not_le_0 del: power_int_numeral)
  next
    case 4
    then have "round_mag y \<le> round_mag x" using assms by (simp add: round_mag_mono)
    then show ?thesis using 4
      by (simp add: rnd_def Let_def js_le_fin js_le_fin_inf js_le_inf_fin js_le_inf_inf
            del: power_int_numeral)
  qed
qed

lemma is_double_rnd: "0 \<le> x \<Longrightarrow> is_double (rnd s x)"
  by (simp add: rnd_def Let_def is_double_def mag_fin round_mag_nonneg round_mag_idem
        round_mag_0 js_inf_def del: power_int_numeral)

lemma is_double_js_mul: "is_double (js_mul a b)"
  by (simp add: js_mul_def is_double_rnd mag_nonneg)
     (simp add: is_double_def js_inf_def round_mag_0)

lemma rnd_sign_mag: "js_isFinite a \<Longrightarrow> is_double a \<Longrightarrow> rnd (sign_bit a) (mag a) = a"
  by (simp add: rnd_def Let_def is_double_def fin_sign_mag del: power_int_numeral)

lemma js_le_refl_iff: "js_le a a \<longleftrightarrow> \<not> is_nan a"
  by (cases a) (simp_all add: js_le_def)

lemma js_le_NInf: "\<not> is_nan a \<Longrightarrow> js_le NInf a"
  by (simp add: js_le_def)

lemma js_le_PInf: "\<not> is_nan a \<Longrightarrow> js_le a PInf"
  by (simp add: js_le_def)

lemma is_nan_js_mul_left: "is_nan a \<Longrightarrow> is_nan (js_mul a b)"
  by (simp add: js_mul_def)

lemma is_nan_js_div_left: "is_nan a \<Longrightarrow> is_nan (js_div a b)"
  by (simp add: js_div_def)

lemma js_mul_100_mono:
  assumes "js_le a b"
  shows "js_le (js_mul a (Num 100)) (js_mul b (Num 100))"
proof -
  have fc: "js_le (js_mul a (Num 100)) (js_mul b (Num 100))"
    if "js_isFinite a" "js_isFinite b"
  proof -
    have "dval a \<le> dval b" using assms that by (cases a; cases b) (simp_all add: js_le_def)
    then have "dval a * 100 \<le> dval b * 100" by simp
    then have "(if sign_bit a then - (mag a * 100) else mag a * 100)
        \<le> (if sign_bit b then - (mag b * 100) else mag b * 100)"
      by (simp only: signed_mult flip: dval_sign_mag)
    then have "js_le (rnd (sign_bit a) (mag a * 100)) (rnd (sign_bit b) (mag b * 100))"
      using mag_nonneg[of a] mag_nonneg[of b] by (intro rnd_mono) simp_all
    then show ?thesis using that by (simp add: js_mul_def finite_flags)
  qed
  have pos: "\<not> is_nan (js_mul x (Num 100))" if "\<not> is_nan x" for x
    using that by (cases x) (simp_all add: js_mul_def is_nan_rnd js_inf_def)
  show ?thesis
  proof (cases "js_isFinite a \<and> js_isFinite b")
    case True
    then show ?thesis using fc by simp
  next
    case False
    have nn: "\<not> is_nan a" "\<not> is_nan b" using assms by (auto simp: js_le_def)
    from False assms nn have "a = NInf \<or> b = PInf"
      by (cases a; cases b) (simp_all add: js_le_def)
    then show ?thesis
    proof
      assume "a = NInf"
      then have "js_mul a (Num 100) = NInf" by (simp add: js_mul_def js_inf_def)
      then show ?thesis using pos[OF nn(2)] by (simp add: js_le_NInf)
    next
      assume "b = PInf"
      then have "js_mul b (Num 100) = PInf" by (simp add: js_mul_def js_inf_def)
      then show ?thesis using pos[OF nn(1)] by (simp add: js_le_PInf)
    qed
  qed
qed

lemma js_div_mono:
  assumes le: "js_le a b" and pa: "js_gt p (Num 0)"
    and na: "\<not> is_nan (js_div a p)" and nb: "\<not> is_nan (js_div b p)"
  shows "js_le (js_div a p) (js_div b p)"
proof -
  have p: "p = PInf \<or> (\<exists>y. p = Num y \<and> 0 < y)"
    using pa by (cases p) (simp_all add: cmp_eval)
  have nn: "\<not> is_nan a" "\<not> is_nan b" using le by (auto simp: js_le_def)
  show ?thesis
  proof (cases "js_isFinite a \<and> js_isFinite b")
    case True
    then have d: "dval a \<le> dval b" using le by (cases a; cases b) (simp_all add: js_le_def)
    from p show ?thesis
    proof
      assume "p = PInf"
      then show ?thesis using True
        by (simp add: js_div_def finite_flags js_le_fin)
    next
      assume "\<exists>y. p = Num y \<and> 0 < y"
      then obtain y where y: "p = Num y" "0 < y" by blast
      have "dval a / y \<le> dval b / y"
        using d y(2) by (simp add: divide_right_mono)
      then have "(if sign_bit a then - (mag a / y) else mag a / y)
          \<le> (if sign_bit b then - (mag b / y) else mag b / y)"
        by (simp only: signed_divide flip: dval_sign_mag)
      then have "js_le (rnd (sign_bit a) (mag a / y)) (rnd (sign_bit b) (mag b / y))"
        using mag_nonneg[of a] mag_nonneg[of b] y(2) by (intro rnd_mono) simp_all
      then show ?thesis using True y by (simp add: js_div_def finite_flags)
    qed
  next
    case False
    from False le nn have "a = NInf \<or> b = PInf"
      by (cases a; cases b) (simp_all add: js_le_def)
    then show ?thesis
    proof
      assume a: "a = NInf"
      have "js_div a p = NInf"
        using p na unfolding a by (cases p) (simp_all add: js_div_def js_inf_def)
      then show ?thesis using nb by (simp add: js_le_NInf)
    next
      assume b: "b = PInf"
      have "js_div b p = PInf"
        using p nb unfolding b by (cases p) (simp_all add: js_div_def js_inf_def)
      then show ?thesis using na by (simp add: js_le_PInf)
    qed
  qed
qed

lemma js_add_nonneg_ge:
  assumes f: "js_ge f (Num 0)" and d: "is_double c"
    and nc: "\<not> is_nan c" and ns: "\<not> is_nan (js_add c f)"
  shows "js_le c (js_add c f)"
proof (cases "js_isFinite c \<and> js_isFinite f")
  case True
  define v where "v = dval c + dval f"
  have f0: "0 \<le> dval f" using f True by (cases f) (simp_all add: cmp_eval)
  have cv: "dval c \<le> v" using f0 by (simp add: v_def)
  have c: "rnd (sign_bit c) (mag c) = c" using True d by (simp add: rnd_sign_mag)
  show ?thesis
  proof (cases "v = 0")
    case True
    have "js_le (js_fin (sign_bit c) (mag c)) (js_fin (sign_bit c \<and> sign_bit f) 0)"
      unfolding js_le_fin using cv True by (simp add: dval_sign_mag split: if_splits)
    then show ?thesis using True \<open>js_isFinite c \<and> js_isFinite f\<close>
      by (simp add: js_add_def finite_flags v_def fin_sign_mag)
  next
    case False
    have "js_le (rnd (sign_bit c) (mag c)) (rnd (v < 0) \<bar>v\<bar>)"
      using cv mag_nonneg[of c] by (intro rnd_mono) (auto simp: dval_sign_mag split: if_splits)
    then show ?thesis using False \<open>js_isFinite c \<and> js_isFinite f\<close>
      by (simp add: js_add_def finite_flags c flip: v_def)
  qed
next
  case False
  have nf: "\<not> is_nan f" using f by (auto simp: cmp_eval)
  from False nc nf f have "c = NInf \<or> c = PInf \<or> f = PInf"
    by (cases c; cases f) (simp_all add: cmp_eval)
  then show ?thesis using ns nf f
    by (cases c; cases f) (simp_all add: js_add_def js_le_def cmp_eval)
qed

subsection \<open>Doubling\<close>

lemma sign_bit_js_fin: "0 \<le> m \<Longrightarrow> sign_bit (js_fin s m) = s"
  by (auto simp: js_fin_def)

lemma js_mul_finite_args: "js_isFinite (js_mul a b) \<Longrightarrow> js_isFinite a \<and> js_isFinite b"
  by (cases a; cases b) (simp_all add: js_mul_def js_inf_def split: if_splits)

lemma js_mul_finite_eq:
  "js_isFinite a \<Longrightarrow> js_isFinite b \<Longrightarrow> js_mul a b = rnd (sign_bit a \<noteq> sign_bit b) (mag a * mag b)"
  by (simp add: js_mul_def finite_flags)

lemma rnd_finite_iff: "js_isFinite (rnd s x) \<longleftrightarrow> round_mag x < 2 powi 1024"
  by (simp add: rnd_def Let_def js_isFinite_fin js_isFinite_inf not_le del: power_int_numeral)

lemma rnd_finite_eq: "round_mag x < 2 powi 1024 \<Longrightarrow> rnd s x = js_fin s (round_mag x)"
  by (simp add: rnd_def Let_def not_le del: power_int_numeral)

lemma round_mag_double':
  assumes "MIN_NORMAL \<le> x"
  shows "round_mag (2 * x) = 2 * round_mag x"
  using assms round_mag_double[of x] by (simp add: MIN_NORMAL_def)

lemma twice_rnd:
  assumes r2: "round_mag (2 * x) = 2 * round_mag x" and x: "0 \<le> x"
    and f: "js_isFinite (rnd s (2 * x))"
  shows "twice (rnd s x) (rnd s (2 * x))"
proof -
  have b2: "round_mag (2 * x) < 2 powi 1024" using f by (simp only: rnd_finite_iff)
  have n: "0 \<le> round_mag x" using x by (rule round_mag_nonneg)
  have b1: "round_mag x < 2 powi 1024" using b2 n r2 by linarith
  show ?thesis
    using n by (simp add: rnd_finite_eq[OF b1] rnd_finite_eq[OF b2] twice_def js_isFinite_fin
        sign_bit_js_fin mag_fin r2)
qed

lemma twice_js_mul:
  assumes tw: "twice a a'" and nu: "no_underflow a b" and f: "js_isFinite (js_mul a' b)"
  shows "twice (js_mul a b) (js_mul a' b)"
proof -
  have fa: "js_isFinite a" "js_isFinite a'" and sg: "sign_bit a' = sign_bit a"
    and mg: "mag a' = 2 * mag a"
    using tw by (simp_all add: twice_def)
  have fb: "js_isFinite b" using f js_mul_finite_args by blast
  define x where "x = mag a * mag b"
  have x0: "0 \<le> x" using mag_nonneg[of a] mag_nonneg[of b] by (simp add: x_def)
  have e: "js_mul a b = rnd (sign_bit a \<noteq> sign_bit b) x"
    "js_mul a' b = rnd (sign_bit a \<noteq> sign_bit b) (2 * x)"
    using fa fb by (simp_all add: js_mul_finite_eq sg mg x_def mult.assoc)
  have "x = 0 \<or> MIN_NORMAL \<le> x"
    using nu by (auto simp: no_underflow_def is_zero_mag x_def)
  then have "round_mag (2 * x) = 2 * round_mag x"
    by (auto simp: round_mag_0 round_mag_double')
  then show ?thesis
    unfolding e using x0 f[unfolded e] by (rule twice_rnd)
qed

lemma twice_zero_iff: "twice a a' \<Longrightarrow> is_zero a' \<longleftrightarrow> is_zero a"
  by (simp add: twice_def is_zero_mag)

lemma twice_js_div:
  assumes a: "twice a a'" and p: "twice p p'"
  shows "js_div a' p' = js_div a p"
proof -
  have f: "js_isFinite a" "js_isFinite a'" "js_isFinite p" "js_isFinite p'"
    using a p by (simp_all add: twice_def)
  have s: "sign_bit a' = sign_bit a" "sign_bit p' = sign_bit p"
    and m: "mag a' = 2 * mag a" "mag p' = 2 * mag p"
    using a p by (simp_all add: twice_def)
  show ?thesis
    using f by (simp add: js_div_def finite_flags twice_zero_iff[OF a] twice_zero_iff[OF p] s m)
qed

lemma MIN_VALUE_pos: "0 < MIN_VALUE"
  by (simp add: MIN_VALUE_def)

lemma is_double_grid:
  assumes "is_double a"
  shows "\<exists>n. 0 \<le> n \<and> mag a = of_int n * MIN_VALUE"
proof (cases "mag a = 0")
  case True
  then show ?thesis by (intro exI[of _ 0]) simp
next
  case False
  define x where "x = mag a"
  define e where "e = ulp_exp x"
  define j where "j = nat (e + 1074)"
  define n where "n = rhe (x / 2 powi e)"
  have x: "0 < x" using False mag_nonneg[of a] by (simp add: x_def)
  have A: "x = of_int n * 2 powi e"
    using assms x by (simp add: is_double_def round_mag_def x_def e_def n_def)
  have "(2::rat) powi e = 2 powi (e + 1074) * 2 powi (- 1074)"
    using p2_add[of "e + 1074" "- 1074"] by simp
  also have "(2::rat) powi (e + 1074) = of_int (2 ^ j)"
    unfolding j_def using ulp_exp_ge[of x] by (intro p2_of_int) (simp add: e_def)
  finally have pe: "2 powi e = of_int (2 ^ j) * MIN_VALUE"
    by (simp only: MIN_VALUE_def)
  have "x = of_int (n * 2 ^ j) * MIN_VALUE"
    unfolding A pe by (simp only: of_int_mult mult.assoc)
  moreover have "0 \<le> n * 2 ^ j"
    unfolding n_def using x by (intro mult_nonneg_nonneg rhe_nonneg) simp_all
  ultimately show ?thesis unfolding x_def by blast
qed

lemma round_mag_grid_double:
  assumes n: "0 \<le> n"
  shows "round_mag (2 * (of_int n * MIN_VALUE)) = 2 * round_mag (of_int n * MIN_VALUE)"
proof (cases "MIN_NORMAL \<le> of_int n * MIN_VALUE")
  case True
  then show ?thesis by (rule round_mag_double')
next
  case False
  then have "of_int n * 2 powi (- 1074) < (2::rat) powi 52 * 2 powi (- 1074)"
    by (simp add: MIN_NORMAL_def MIN_VALUE_def flip: p2_add)
  then have "(of_int n :: rat) < of_int (2 ^ 52)"
    by simp
  then have n52: "n < 2 ^ 52" by (simp only: of_int_less_iff)
  have 1: "round_mag (of_int n * 2 powi (- 1074)) = of_int n * 2 powi (- 1074)"
    using n n52 by (intro round_mag_int_grid) simp_all
  have 2: "round_mag (of_int (2 * n) * 2 powi (- 1074)) = of_int (2 * n) * 2 powi (- 1074)"
    using n n52 by (intro round_mag_int_grid) simp_all
  show ?thesis using 1 2 by (simp add: MIN_VALUE_def)
qed

lemma dval_grid:
  assumes "is_double a"
  shows "\<exists>k. dval a = of_int k * MIN_VALUE"
proof -
  obtain n where "mag a = of_int n * MIN_VALUE" using is_double_grid[OF assms] by blast
  then have "dval a = of_int (if sign_bit a then - n else n) * MIN_VALUE"
    by (simp add: dval_sign_mag)
  then show ?thesis by blast
qed

lemma twice_dval: "twice a a' \<Longrightarrow> dval a' = 2 * dval a"
  by (simp add: twice_def dval_sign_mag)

lemma twice_js_add:
  assumes a: "twice a a'" and b: "twice b b'"
    and da: "is_double a" and db: "is_double b"
    and f: "js_isFinite (js_add a' b')"
  shows "twice (js_add a b) (js_add a' b')"
proof -
  have fin: "js_isFinite a" "js_isFinite a'" "js_isFinite b" "js_isFinite b'"
    using a b by (simp_all add: twice_def)
  have s: "sign_bit a' = sign_bit a" "sign_bit b' = sign_bit b"
    using a b by (simp_all add: twice_def)
  define v where "v = dval a + dval b"
  have v': "dval a' + dval b' = 2 * v"
    using twice_dval[OF a] twice_dval[OF b] by (simp add: v_def)
  show ?thesis
  proof (cases "v = 0")
    case True
    then show ?thesis
      using fin by (simp add: js_add_def finite_flags v' s twice_def js_isFinite_fin
          sign_bit_js_fin mag_fin flip: v_def)
  next
    case False
    obtain k l where "dval a = of_int k * MIN_VALUE" "dval b = of_int l * MIN_VALUE"
      using dval_grid[OF da] dval_grid[OF db] by blast
    then have "v = of_int (k + l) * MIN_VALUE" by (simp add: v_def algebra_simps)
    then have "\<bar>v\<bar> = of_int \<bar>k + l\<bar> * MIN_VALUE"
      using MIN_VALUE_pos by (simp add: abs_mult)
    then have r2: "round_mag (2 * \<bar>v\<bar>) = 2 * round_mag \<bar>v\<bar>"
      using round_mag_grid_double[of "\<bar>k + l\<bar>"] by simp
    have e: "js_add a b = rnd (v < 0) \<bar>v\<bar>" "js_add a' b' = rnd (v < 0) (2 * \<bar>v\<bar>)"
      using fin False by (simp_all add: js_add_def finite_flags v' abs_mult flip: v_def)
    show ?thesis
      unfolding e using r2 f[unfolded e] by (intro twice_rnd) simp_all
  qed
qed

subsection \<open>Products in the subnormal range\<close>

lemma MIN_VALUE_simps: "\<bar>MIN_VALUE\<bar> = MIN_VALUE" "MIN_VALUE \<noteq> 0" "\<not> MIN_VALUE < 0"
  using MIN_VALUE_pos by simp_all

lemma round_mag_subnormal:
  assumes "0 < r" "r < 2 ^ 52"
  shows "round_mag (r * MIN_VALUE) = of_int (rhe r) * MIN_VALUE"
proof -
  define x where "x = r * 2 powi (- 1074)"
  have x: "0 < x" using assms(1) p2_pos[of "- 1074"] unfolding x_def by (rule mult_pos_pos)
  have "x < 2 powi 52 * 2 powi (- 1074)"
    unfolding x_def using assms(2) p2_pos[of "- 1074"]
    by (intro mult_strict_right_mono) simp_all
  also have "\<dots> = 2 powi (- 1022)" using p2_add[of 52 "- 1074"] by simp
  finally have "2 powi ilog2 x < (2::rat) powi (- 1022)"
    using ilog2_bounds[OF x] by linarith
  then have "ilog2 x < - 1022" by (simp only: p2_less_iff)
  then have e: "ulp_exp x = - 1074" by (simp add: ulp_exp_def)
  have q: "x / 2 powi (- 1074) = r" unfolding x_def using p2_pos[of "- 1074"] by simp
  have "round_mag x = of_int (rhe r) * 2 powi (- 1074)"
    using x unfolding round_mag_def e q by simp
  then show ?thesis by (simp only: x_def MIN_VALUE_def)
qed

lemma rnd_subnormal:
  assumes "0 < r" "r < 2 ^ 52"
  shows "rnd s (r * MIN_VALUE) = js_fin s (of_int (rhe r) * MIN_VALUE)"
proof -
  have "rhe r \<le> 2 ^ 52" using assms(2) by (intro rhe_le_p2) simp
  then have "(of_int (rhe r) :: rat) \<le> of_int (2 ^ 52)" by (simp only: of_int_le_iff)
  then have "of_int (rhe r) * MIN_VALUE \<le> 2 powi 52 * 2 powi (- 1074)"
    unfolding MIN_VALUE_def using p2_pos[of "- 1074"] by (intro mult_right_mono) simp_all
  also have "\<dots> = 2 powi (- 1022)" using p2_add[of 52 "- 1074"] by simp
  also have "\<dots> < (2::rat) powi 1024" by (simp only: p2_less_iff)
  finally have "round_mag (r * MIN_VALUE) < 2 powi 1024"
    by (simp only: round_mag_subnormal[OF assms])
  then show ?thesis by (simp only: rnd_finite_eq round_mag_subnormal[OF assms])
qed

lemma three_tenths: "js_div (Num 30) (Num 100) = Num (5404319552844595 / 18014398509481984)"
  by (simp add: op_eval)

lemma tiny_baseCost_1: "js_mul (Num 1) (Num MIN_VALUE) = Num MIN_VALUE"
  using rnd_subnormal[of 1 False]
  by (simp add: js_mul_def MIN_VALUE_simps rhe_def js_fin_def)

lemma tiny_baseCost_2: "js_mul (Num 2) (Num MIN_VALUE) = Num (2 * MIN_VALUE)"
  using rnd_subnormal[of 2 False]
  by (simp add: js_mul_def MIN_VALUE_simps rhe_def js_fin_def)

lemma tiny_prepayment_1:
  "js_mul (Num MIN_VALUE) (Num (5404319552844595 / 18014398509481984)) = Num 0"
  using rnd_subnormal[of "5404319552844595 / 18014398509481984" False]
  by (simp add: js_mul_def MIN_VALUE_simps rhe_def js_fin_def floor_rat_numeral_div mult.commute)

lemma tiny_prepayment_2:
  "js_mul (Num (2 * MIN_VALUE)) (Num (5404319552844595 / 18014398509481984)) = Num MIN_VALUE"
  using rnd_subnormal[of "2 * (5404319552844595 / 18014398509481984)" False]
  by (simp add: js_mul_def MIN_VALUE_simps rhe_def js_fin_def floor_rat_numeral_div abs_mult
        mult.commute)

section \<open>Accuracy\<close>

subsection \<open>Relative error of one rounding\<close>






subsection \<open>Calculating with factors\<close>









subsection \<open>Normal results\<close>







subsection \<open>Accumulated factors\<close>












subsection \<open>The error of a computed ROI\<close>























section \<open>Results at particular inputs\<close>

lemma results_defaults:
  "calculateResults defaults = \<lparr> baseCost = Num 240000000, prepaymentAmount = Num 24000000,
     costSavings = Num 12000000, flexibilityValue = Num 14400000, baseROI = Num 50,
     totalROI = Num (110 + 1 / 2 ^ 46) \<rparr>"
  unfolding defaults_mk
  by (rule calculateResults_eval) (simp_all add: mk_inputs_fields op_eval)

lemma results_negative_demand:
  "calculateResults (mk_inputs (- 30000) 8000 0 (- 5) 30) =
     \<lparr> baseCost = Num (- 240000000), prepaymentAmount = NegZero,
       costSavings = Num 12000000, flexibilityValue = Num (- 14400000), baseROI = NInf,
       totalROI = PInf \<rparr>"
  by (rule calculateResults_eval) (simp_all add: mk_inputs_fields op_eval)

lemma results_no_prepayment:
  "calculateResults (mk_inputs 30000 8000 0 5 30) =
     \<lparr> baseCost = Num 240000000, prepaymentAmount = Num 0,
       costSavings = Num 12000000, flexibilityValue = Num 14400000, baseROI = PInf,
       totalROI = PInf \<rparr>"
  by (rule calculateResults_eval) (simp_all add: mk_inputs_fields op_eval)

lemma results_zero_percentages:
  "calculateResults (mk_inputs 30000 8000 0 0 0) =
     \<lparr> baseCost = Num 240000000, prepaymentAmount = Num 0,
       costSavings = Num 0, flexibilityValue = Num 0, baseROI = NaN, totalROI = NaN \<rparr>"
  by (rule calculateResults_eval) (simp_all add: mk_inputs_fields op_eval)

lemma results_zero_demand:
  "calculateResults (mk_inputs 0 8000 10 0 0) =
     \<lparr> baseCost = Num 0, prepaymentAmount = Num 0,
       costSavings = Num 0, flexibilityValue = Num 0, baseROI = NaN, totalROI = NaN \<rparr>"
  by (rule calculateResults_eval) (simp_all add: mk_inputs_fields op_eval)

lemma results_no_discount:
  "calculateResults (mk_inputs 30000 8000 10 0 0) =
     \<lparr> baseCost = Num 240000000, prepaymentAmount = Num 24000000,
       costSavings = Num 0, flexibilityValue = Num 0, baseROI = Num 0, totalROI = Num 0 \<rparr>"
  by (rule calculateResults_eval) (simp_all add: mk_inputs_fields op_eval)

lemma results_negative_prepayment:
  "calculateResults (mk_inputs 30000 8000 (- 10) 5 30) =
     \<lparr> baseCost = Num 240000000, prepaymentAmount = Num (- 24000000),
       costSavings = Num 12000000, flexibilityValue = Num 14400000, baseROI = Num (- 50),
       totalROI = Num (- (110 + 1 / 2 ^ 46)) \<rparr>"
  by (rule calculateResults_eval) (simp_all add: mk_inputs_fields op_eval)

lemma results_zero_demand_defaults:
  "calculateResults (mk_inputs 0 8000 10 5 30) =
     \<lparr> baseCost = Num 0, prepaymentAmount = Num 0,
       costSavings = Num 0, flexibilityValue = Num 0, baseROI = NaN, totalROI = NaN \<rparr>"
  by (rule calculateResults_eval) (simp_all add: mk_inputs_fields op_eval)

lemma results_doubled_demand:
  "calculateResults (mk_inputs 60000 8000 10 5 30) =
     \<lparr> baseCost = Num 480000000, prepaymentAmount = Num 48000000,
       costSavings = Num 24000000, flexibilityValue = Num 28800000, baseROI = Num 50,
       totalROI = Num (110 + 1 / 2 ^ 46) \<rparr>"
  by (rule calculateResults_eval) (simp_all add: mk_inputs_fields op_eval)






text \<open>The default inputs are in the normal range.\<close>

lemma MIN_NORMAL_le_1: "MIN_NORMAL \<le> 1"
  using p2_le_iff[of "- 1022" 0] by (simp add: MIN_NORMAL_def del: power_int_minus)

lemma no_underflow_ge_1: "1 \<le> mag a * mag b \<Longrightarrow> no_underflow a b"
  using MIN_NORMAL_le_1 by (simp add: no_underflow_def)

lemma products_normal_defaults: "products_normal defaults"
proof -
  have b: "js_mul (Num 30000) (Num 8000) = Num 240000000" by (simp add: op_eval)
  have t: "js_mul (Num 240000000) (Num (5404319552844595 / 18014398509481984)) = Num 72000000"
    by (simp add: op_eval)
  have q: "js_div (Num 10) (Num 100) = Num (3602879701896397 / 36028797018963968)"
    "js_div (Num 5) (Num 100) = Num (3602879701896397 / 72057594037927936)"
    "js_div (Num 30) (Num 100) = Num (5404319552844595 / 18014398509481984)"
    by (simp_all add: op_eval)
  show ?thesis
    unfolding products_normal_def defaults_mk mk_inputs_fields lit_100 Let_def b q t
    by (intro conjI no_underflow_ge_1) (simp_all add: lit_020)
qed











section \<open>The claims\<close>

text \<open>
  Claim C1, as stated: for every input record with \<open>prepayment > 0\<close>,
  \<open>baseROI == costSavings / prepaymentAmount * 100\<close> and
  \<open>totalROI == (costSavings + flexibilityValue) / prepaymentAmount * 100\<close>. With a demand
  of 0 and a prepayment of 10 the cost savings and the prepayment amount are both 0,
  both ROIs are not-a-number, and \<open>==\<close> is false on not-a-number.
\<close>

theorem roi_formulas_nan:
  "js_gt (prepayment (mk_inputs 0 8000 10 5 30)) (js_lit 0)
   \<and> \<not> js_eq (baseROI (calculateResults (mk_inputs 0 8000 10 5 30)))
        (js_mul (js_div (costSavings (calculateResults (mk_inputs 0 8000 10 5 30)))
                        (prepaymentAmount (calculateResults (mk_inputs 0 8000 10 5 30))))
                (js_lit 100))
   \<and> \<not> js_eq (totalROI (calculateResults (mk_inputs 0 8000 10 5 30)))
        (js_mul (js_div (js_add (costSavings (calculateResults (mk_inputs 0 8000 10 5 30)))
                                (flexibilityValue (calculateResults (mk_inputs 0 8000 10 5 30))))
                        (prepaymentAmount (calculateResults (mk_inputs 0 8000 10 5 30))))
                (js_lit 100))"
  by (simp add: results_zero_demand_defaults mk_inputs_fields lit_0 cmp_eval)

text \<open>
  Claim C1, amended: for every input record,
  \<open>baseROI == costSavings / prepaymentAmount * 100\<close> holds exactly when the quotient
  \<open>costSavings / prepaymentAmount\<close> is defined, that is, unless one of the two is
  not-a-number, both are 0, or both are infinite; and
  \<open>totalROI == (costSavings + flexibilityValue) / prepaymentAmount * 100\<close> holds exactly
  when the quotient \<open>(costSavings + flexibilityValue) / prepaymentAmount\<close> is defined in
  the same sense. The right-hand sides are formed with the Number operators from the
  monetary fields of the same result record. Both equations hold whenever the prepayment
  amount \<open>annualWaferDemand * waferCost * (prepayment / 100)\<close> is a finite Number other
  than 0 and the cost savings \<open>annualWaferDemand * waferCost * (priceDiscount / 100)\<close> and
  the flexibility value \<open>annualWaferDemand * waferCost * (flexibilityBand / 100) * 0.20\<close>
  are finite. The sign of \<open>prepayment\<close> plays no part.
\<close>

theorem roi_formulas:
  "(js_eq (baseROI (calculateResults i))
          (js_mul (js_div (costSavings (calculateResults i))
                          (prepaymentAmount (calculateResults i))) (js_lit 100))
      \<longleftrightarrow> \<not> undefined_quotient (costSavings (calculateResults i))
                                 (prepaymentAmount (calculateResults i)))
   \<and> (js_eq (totalROI (calculateResults i))
          (js_mul (js_div (js_add (costSavings (calculateResults i))
                                  (flexibilityValue (calculateResults i)))
                          (prepaymentAmount (calculateResults i))) (js_lit 100))
      \<longleftrightarrow> \<not> undefined_quotient (js_add (costSavings (calculateResults i))
                                         (flexibilityValue (calculateResults i)))
                                 (prepaymentAmount (calculateResults i)))
   \<and> (roi_defined i \<longrightarrow>
        js_eq (baseROI (calculateResults i))
          (js_mul (js_div (costSavings (calculateResults i))
                          (prepaymentAmount (calculateResults i))) (js_lit 100))
        \<and> js_eq (totalROI (calculateResults i))
          (js_mul (js_div (js_add (costSavings (calculateResults i))
                                  (flexibilityValue (calculateResults i)))
                          (prepaymentAmount (calculateResults i))) (js_lit 100)))"
proof -
  let ?r = "calculateResults i"
  let ?s = "js_add (costSavings ?r) (flexibilityValue ?r)"
  have "js_eq (baseROI ?r) (js_mul (js_div (costSavings ?r) (prepaymentAmount ?r)) (js_lit 100))
      \<longleftrightarrow> \<not> is_nan (baseROI ?r)"
    unfolding calc_baseROI[symmetric] by (rule js_eq_same)
  also have "is_nan (baseROI ?r)
      \<longleftrightarrow> undefined_quotient (costSavings ?r) (prepaymentAmount ?r)"
    unfolding calc_baseROI lit_100 is_nan_js_mul_100_iff by (rule is_nan_js_div_iff)
  finally have b: "js_eq (baseROI ?r)
        (js_mul (js_div (costSavings ?r) (prepaymentAmount ?r)) (js_lit 100))
      \<longleftrightarrow> \<not> undefined_quotient (costSavings ?r) (prepaymentAmount ?r)" .
  have "js_eq (totalROI ?r) (js_mul (js_div ?s (prepaymentAmount ?r)) (js_lit 100))
      \<longleftrightarrow> \<not> is_nan (totalROI ?r)"
    unfolding calc_totalROI[symmetric] by (rule js_eq_same)
  also have "is_nan (totalROI ?r) \<longleftrightarrow> undefined_quotient ?s (prepaymentAmount ?r)"
    unfolding calc_totalROI lit_100 is_nan_js_mul_100_iff by (rule is_nan_js_div_iff)
  finally have t: "js_eq (totalROI ?r) (js_mul (js_div ?s (prepaymentAmount ?r)) (js_lit 100))
      \<longleftrightarrow> \<not> undefined_quotient ?s (prepaymentAmount ?r)" .
  have n: "\<not> undefined_quotient (costSavings ?r) (prepaymentAmount ?r)
      \<and> \<not> undefined_quotient ?s (prepaymentAmount ?r)" if d: "roi_defined i"
  proof -
    have pa: "js_isFinite (prepaymentAmount ?r)" "\<not> is_zero (prepaymentAmount ?r)"
      and cs: "js_isFinite (costSavings ?r)" and fv: "js_isFinite (flexibilityValue ?r)"
      using d by (simp_all add: roi_defined_results)
    have "\<not> is_nan (costSavings ?r)" using cs by (simp add: finite_flags)
    then have 1: "\<not> is_nan (js_div (costSavings ?r) (prepaymentAmount ?r))"
      using pa by (rule js_div_by_finite_not_nan)
    have "\<not> is_nan ?s" using cs fv by (rule js_add_finite_not_nan)
    then have 2: "\<not> is_nan (js_div ?s (prepaymentAmount ?r))"
      using pa by (rule js_div_by_finite_not_nan)
    from 1 2 show ?thesis by (simp only: is_nan_js_div_iff simp_thms)
  qed
  show ?thesis using b t n by blast
qed

theorem roi_formulas_witness:
  "js_gt (prepayment defaults) (js_lit 0)
   \<and> roi_defined defaults
   \<and> js_eq (baseROI (calculateResults defaults))
        (js_mul (js_div (costSavings (calculateResults defaults))
                        (prepaymentAmount (calculateResults defaults))) (js_lit 100))
   \<and> js_eq (totalROI (calculateResults defaults))
        (js_mul (js_div (js_add (costSavings (calculateResults defaults))
                                (flexibilityValue (calculateResults defaults)))
                        (prepaymentAmount (calculateResults defaults))) (js_lit 100))"
proof -
  have d: "roi_defined defaults"
    unfolding roi_defined_results results_defaults by simp
  have p: "js_gt (prepayment defaults) (js_lit 0)"
    by (simp add: defaults_fields lit_0 cmp_eval)
  from roi_formulas [of defaults] d p show ?thesis by blast
qed

text \<open>
  Claim C2. For every input record, \<open>baseCost = annualWaferDemand * waferCost\<close>,
  \<open>prepaymentAmount = baseCost * (prepayment / 100)\<close>,
  \<open>costSavings = baseCost * (priceDiscount / 100)\<close> and
  \<open>flexibilityValue = baseCost * (flexibilityBand / 100) * 0.20\<close>, the operators being
  those of Numbers and associating to the left. The literal \<open>100\<close> is the Number 100
  and the literal \<open>0.20\<close> is the Number nearest to one fifth,
  \<open>3602879701896397 / 2 ^ 54\<close>.
\<close>

theorem monetary_formulas:
  "baseCost (calculateResults i) = js_mul (annualWaferDemand i) (waferCost i)
   \<and> prepaymentAmount (calculateResults i) =
       js_mul (baseCost (calculateResults i)) (js_div (prepayment i) (Num 100))
   \<and> costSavings (calculateResults i) =
       js_mul (baseCost (calculateResults i)) (js_div (priceDiscount i) (Num 100))
   \<and> flexibilityValue (calculateResults i) =
       js_mul (js_mul (baseCost (calculateResults i)) (js_div (flexibilityBand i) (Num 100)))
              (js_lit (20 / 100))
   \<and> js_lit (20 / 100) = Num (3602879701896397 / 2 ^ 54)"
proof -
  have "js_lit (20 / 100) = Num (3602879701896397 / 2 ^ 54)"
    using lit_020 by simp
  then show ?thesis
    by (simp add: calculateResults_def Let_def lit_100)
qed

text \<open>
  Claim C3, as stated: at the default inputs the result is \<open>baseCost = 240000000\<close>,
  \<open>prepaymentAmount = 24000000\<close>, \<open>costSavings = 12000000\<close>,
  \<open>flexibilityValue = 14400000\<close>, \<open>baseROI = 50\<close> and \<open>totalROI = 110\<close>.
  It fails in the last field: the quotient \<open>26400000 / 24000000\<close> rounds to the Number
  just above \<open>11 / 10\<close>, and its product with 100 rounds to the Number just above 110.
\<close>

theorem defaults_claimed_results_fail:
  "\<not> (baseCost (calculateResults defaults) = Num 240000000
      \<and> prepaymentAmount (calculateResults defaults) = Num 24000000
      \<and> costSavings (calculateResults defaults) = Num 12000000
      \<and> flexibilityValue (calculateResults defaults) = Num 14400000
      \<and> baseROI (calculateResults defaults) = Num 50
      \<and> totalROI (calculateResults defaults) = Num 110)"
  by (simp add: results_defaults)

text \<open>
  Claim C3, amended: at the default inputs the result is \<open>baseCost = 240000000\<close>,
  \<open>prepaymentAmount = 24000000\<close>, \<open>costSavings = 12000000\<close>,
  \<open>flexibilityValue = 14400000\<close>, \<open>baseROI = 50\<close> and
  \<open>totalROI = 110 + 2 ^ - 46\<close>, printed \<open>110.00000000000001\<close>.
\<close>

theorem defaults_results:
  "baseCost (calculateResults defaults) = Num 240000000
   \<and> prepaymentAmount (calculateResults defaults) = Num 24000000
   \<and> costSavings (calculateResults defaults) = Num 12000000
   \<and> flexibilityValue (calculateResults defaults) = Num 14400000
   \<and> baseROI (calculateResults defaults) = Num 50
   \<and> totalROI (calculateResults defaults) = Num (110 + 1 / 2 ^ 46)"
  by (simp add: results_defaults)

text \<open>
  Claim C4, as stated: whenever \<open>flexibilityValue >= 0\<close>, \<open>totalROI >= baseROI\<close>. With a
  negative prepayment the prepayment amount is negative and the order is reversed
  (\<open>totalROI\<close> is about -110, \<open>baseROI\<close> is -50); with a demand of 0 both ROIs are
  not-a-number, on which \<open>>=\<close> is false.
\<close>

theorem total_below_base:
  "js_ge (flexibilityValue (calculateResults (mk_inputs 30000 8000 (- 10) 5 30))) (js_lit 0)
   \<and> \<not> js_ge (totalROI (calculateResults (mk_inputs 30000 8000 (- 10) 5 30)))
             (baseROI (calculateResults (mk_inputs 30000 8000 (- 10) 5 30)))
   \<and> js_ge (flexibilityValue (calculateResults (mk_inputs 0 8000 10 5 30))) (js_lit 0)
   \<and> \<not> js_ge (totalROI (calculateResults (mk_inputs 0 8000 10 5 30)))
             (baseROI (calculateResults (mk_inputs 0 8000 10 5 30)))"
  by (simp add: results_negative_prepayment results_zero_demand_defaults lit_0 cmp_eval)

text \<open>
  Claim C4, amended: for every input record whose \<open>flexibilityValue\<close> is \<open>>= 0\<close>, whose
  \<open>prepaymentAmount\<close> is \<open>> 0\<close> and whose \<open>baseROI\<close> and \<open>totalROI\<close> are both numbers (not
  not-a-number), \<open>totalROI >= baseROI\<close>: rounded addition, division and multiplication
  are monotone.
\<close>

theorem total_ge_base:
  assumes fv: "js_ge (flexibilityValue (calculateResults i)) (js_lit 0)"
    and pa: "js_gt (prepaymentAmount (calculateResults i)) (js_lit 0)"
    and nb: "\<not> is_nan (baseROI (calculateResults i))"
    and nt: "\<not> is_nan (totalROI (calculateResults i))"
  shows "js_ge (totalROI (calculateResults i)) (baseROI (calculateResults i))"
proof -
  let ?r = "calculateResults i"
  let ?s = "js_add (costSavings ?r) (flexibilityValue ?r)"
  have q1: "\<not> is_nan (js_div (costSavings ?r) (prepaymentAmount ?r))"
    using nb is_nan_js_mul_left unfolding calc_baseROI by blast
  have q2: "\<not> is_nan (js_div ?s (prepaymentAmount ?r))"
    using nt is_nan_js_mul_left unfolding calc_totalROI by blast
  have c: "\<not> is_nan (costSavings ?r)" using q1 is_nan_js_div_left by blast
  have s: "\<not> is_nan ?s" using q2 is_nan_js_div_left by blast
  have d: "is_double (costSavings ?r)" unfolding calc_costSavings by (rule is_double_js_mul)
  have "js_le (costSavings ?r) ?s"
    using fv d c s unfolding lit_0 by (rule js_add_nonneg_ge)
  then have "js_le (js_div (costSavings ?r) (prepaymentAmount ?r))
                   (js_div ?s (prepaymentAmount ?r))"
    using pa q1 q2 unfolding lit_0 by (rule js_div_mono)
  then have "js_le (js_mul (js_div (costSavings ?r) (prepaymentAmount ?r)) (Num 100))
                   (js_mul (js_div ?s (prepaymentAmount ?r)) (Num 100))"
    by (rule js_mul_100_mono)
  then show ?thesis
    by (simp add: js_ge_def calc_baseROI calc_totalROI lit_100)
qed

theorem total_ge_base_witness:
  "js_ge (flexibilityValue (calculateResults defaults)) (js_lit 0)
   \<and> js_gt (prepaymentAmount (calculateResults defaults)) (js_lit 0)
   \<and> \<not> is_nan (baseROI (calculateResults defaults))
   \<and> \<not> is_nan (totalROI (calculateResults defaults))
   \<and> js_ge (totalROI (calculateResults defaults)) (baseROI (calculateResults defaults))"
proof -
  have h: "js_ge (flexibilityValue (calculateResults defaults)) (js_lit 0)"
    "js_gt (prepaymentAmount (calculateResults defaults)) (js_lit 0)"
    "\<not> is_nan (baseROI (calculateResults defaults))"
    "\<not> is_nan (totalROI (calculateResults defaults))"
    by (simp_all add: results_defaults lit_0 cmp_eval)
  from total_ge_base [OF h] h show ?thesis by simp
qed

text \<open>
  Claim C5, as stated: doubling \<open>annualWaferDemand\<close> with the other four inputs fixed
  doubles the four monetary results and leaves both ROIs unchanged. With a wafer cost of
  \<open>Number.MIN_VALUE\<close> and a prepayment of 30, a demand of 1 gives the prepayment amount
  0 (three tenths of the least magnitude round to zero) and a demand of 2 gives
  \<open>Number.MIN_VALUE\<close> (six tenths round to one), which is not twice 0.
\<close>

theorem demand_doubling_underflow:
  "demand_doubled (mk_inputs 1 MIN_VALUE 30 5 30) (mk_inputs 2 MIN_VALUE 30 5 30)
   \<and> prepaymentAmount (calculateResults (mk_inputs 1 MIN_VALUE 30 5 30)) = Num 0
   \<and> prepaymentAmount (calculateResults (mk_inputs 2 MIN_VALUE 30 5 30)) = Num MIN_VALUE
   \<and> \<not> twice (prepaymentAmount (calculateResults (mk_inputs 1 MIN_VALUE 30 5 30)))
               (prepaymentAmount (calculateResults (mk_inputs 2 MIN_VALUE 30 5 30)))"
proof -
  have 1: "prepaymentAmount (calculateResults (mk_inputs 1 MIN_VALUE 30 5 30)) = Num 0"
    by (simp only: calc_prepaymentAmount calc_baseCost mk_inputs_fields lit_100 three_tenths
          tiny_baseCost_1 tiny_prepayment_1)
  have 2: "prepaymentAmount (calculateResults (mk_inputs 2 MIN_VALUE 30 5 30)) = Num MIN_VALUE"
    by (simp only: calc_prepaymentAmount calc_baseCost mk_inputs_fields lit_100 three_tenths
          tiny_baseCost_2 tiny_prepayment_2)
  have 3: "demand_doubled (mk_inputs 1 MIN_VALUE 30 5 30) (mk_inputs 2 MIN_VALUE 30 5 30)"
    by (simp add: demand_doubled_def mk_inputs_fields twice_def)
  show ?thesis unfolding 1 2 using 3 by (simp add: twice_def MIN_VALUE_simps)
qed

text \<open>
  Claim C5, amended: for every two input records that differ only in
  \<open>annualWaferDemand\<close>, the second holding exactly twice the finite demand of the first:
  if no product formed in the first run underflows (each of
  \<open>annualWaferDemand * waferCost\<close>, \<open>baseCost * (prepayment / 100)\<close>,
  \<open>baseCost * (priceDiscount / 100)\<close>, \<open>baseCost * (flexibilityBand / 100)\<close> and that
  product times \<open>0.20\<close> is exactly zero or at least \<open>2 powi - 1022\<close> in magnitude) and
  the four monetary results of the second run and the sum of its \<open>costSavings\<close> and
  \<open>flexibilityValue\<close> are finite, then \<open>baseCost\<close>, \<open>prepaymentAmount\<close>, \<open>costSavings\<close> and
  \<open>flexibilityValue\<close> of the second run are exactly twice those of the first, and
  \<open>baseROI\<close> and \<open>totalROI\<close> are identical.
\<close>

theorem demand_doubling:
  assumes dd: "demand_doubled i j"
    and pn: "products_normal i"
    and mf: "monetary_finite (calculateResults j)"
  shows "twice (baseCost (calculateResults i)) (baseCost (calculateResults j))
       \<and> twice (prepaymentAmount (calculateResults i)) (prepaymentAmount (calculateResults j))
       \<and> twice (costSavings (calculateResults i)) (costSavings (calculateResults j))
       \<and> twice (flexibilityValue (calculateResults i)) (flexibilityValue (calculateResults j))
       \<and> baseROI (calculateResults j) = baseROI (calculateResults i)
       \<and> totalROI (calculateResults j) = totalROI (calculateResults i)"
proof -
  let ?r = "calculateResults i" and ?r' = "calculateResults j"
  let ?t = "js_mul (baseCost ?r) (js_div (flexibilityBand i) (js_lit 100))"
  let ?t' = "js_mul (baseCost ?r') (js_div (flexibilityBand i) (js_lit 100))"
  have tw: "twice (annualWaferDemand i) (annualWaferDemand j)"
    and same: "waferCost j = waferCost i" "prepayment j = prepayment i"
      "priceDiscount j = priceDiscount i" "flexibilityBand j = flexibilityBand i"
    using dd by (simp_all add: demand_doubled_def)
  have nu: "no_underflow (annualWaferDemand i) (waferCost i)"
    "no_underflow (baseCost ?r) (js_div (prepayment i) (js_lit 100))"
    "no_underflow (baseCost ?r) (js_div (priceDiscount i) (js_lit 100))"
    "no_underflow (baseCost ?r) (js_div (flexibilityBand i) (js_lit 100))"
    "no_underflow ?t (js_lit (1 / 5))"
    using pn by (simp_all add: products_normal_def Let_def calc_baseCost)
  have fin: "js_isFinite (baseCost ?r')" "js_isFinite (prepaymentAmount ?r')"
    "js_isFinite (costSavings ?r')" "js_isFinite (flexibilityValue ?r')"
    "js_isFinite (js_add (costSavings ?r') (flexibilityValue ?r'))"
    using mf by (simp_all add: monetary_finite_def)
  have b: "twice (baseCost ?r) (baseCost ?r')"
    using tw nu(1) fin(1) unfolding calc_baseCost same by (rule twice_js_mul)
  have pa: "twice (prepaymentAmount ?r) (prepaymentAmount ?r')"
    using b nu(2) fin(2) unfolding calc_prepaymentAmount same by (rule twice_js_mul)
  have cs: "twice (costSavings ?r) (costSavings ?r')"
    using b nu(3) fin(3) unfolding calc_costSavings same by (rule twice_js_mul)
  have "js_isFinite ?t'"
    using fin(4) js_mul_finite_args unfolding calc_flexibilityValue same by blast
  with b nu(4) have t: "twice ?t ?t'" by (rule twice_js_mul)
  have fv: "twice (flexibilityValue ?r) (flexibilityValue ?r')"
    using t nu(5) fin(4) unfolding calc_flexibilityValue same by (rule twice_js_mul)
  have dc: "is_double (costSavings ?r)" unfolding calc_costSavings by (rule is_double_js_mul)
  have df: "is_double (flexibilityValue ?r)"
    unfolding calc_flexibilityValue by (rule is_double_js_mul)
  have s: "twice (js_add (costSavings ?r) (flexibilityValue ?r))
                 (js_add (costSavings ?r') (flexibilityValue ?r'))"
    using cs fv dc df fin(5) by (rule twice_js_add)
  have br: "baseROI ?r' = baseROI ?r"
    by (simp add: calc_baseROI twice_js_div[OF cs pa])
  have tr: "totalROI ?r' = totalROI ?r"
    by (simp add: calc_totalROI twice_js_div[OF s pa])
  show ?thesis using b pa cs fv br tr by simp
qed

theorem demand_doubling_witness:
  "demand_doubled defaults (mk_inputs 60000 8000 10 5 30)
   \<and> products_normal defaults
   \<and> monetary_finite (calculateResults (mk_inputs 60000 8000 10 5 30))
   \<and> twice (baseCost (calculateResults defaults))
             (baseCost (calculateResults (mk_inputs 60000 8000 10 5 30)))
   \<and> baseROI (calculateResults (mk_inputs 60000 8000 10 5 30))
       = baseROI (calculateResults defaults)
   \<and> totalROI (calculateResults (mk_inputs 60000 8000 10 5 30))
       = totalROI (calculateResults defaults)"
proof -
  have 1: "demand_doubled defaults (mk_inputs 60000 8000 10 5 30)"
    by (simp add: demand_doubled_def defaults_mk mk_inputs_fields twice_def)
  have 3: "monetary_finite (calculateResults (mk_inputs 60000 8000 10 5 30))"
    by (simp add: monetary_finite_def results_doubled_demand) (simp add: op_eval)
  from demand_doubling [OF 1 products_normal_defaults 3] 1 products_normal_defaults 3
  show ?thesis by simp
qed

text \<open>
  Claim C6, as stated: with \<open>prepayment = 0\<close> the \<open>prepaymentAmount\<close> is 0 and each
  ROI is positive infinity when its numerator is positive. With a negative demand and a
  negative discount the prepayment amount is the negative zero, the cost savings are
  positive, and \<open>baseROI\<close> is negative infinity.
\<close>

theorem zero_prepayment_negative_infinity:
  "js_eq (prepayment (mk_inputs (- 30000) 8000 0 (- 5) 30)) (js_lit 0)
   \<and> js_gt (costSavings (calculateResults (mk_inputs (- 30000) 8000 0 (- 5) 30))) (js_lit 0)
   \<and> baseROI (calculateResults (mk_inputs (- 30000) 8000 0 (- 5) 30)) = NInf
   \<and> baseROI (calculateResults (mk_inputs (- 30000) 8000 0 (- 5) 30)) \<noteq> PInf"
  by (simp add: results_negative_demand mk_inputs_fields lit_0 cmp_eval)

text \<open>
  Claim C6, amended: for every input record with \<open>prepayment = 0\<close> (the positive zero)
  whose \<open>baseCost\<close> is finite and not negative, \<open>prepaymentAmount\<close> is 0, and \<open>baseROI\<close>
  and \<open>totalROI\<close> are the result of dividing by zero: positive infinity when the
  respective numerator (\<open>costSavings\<close>, or \<open>costSavings + flexibilityValue\<close>) is positive
  and not-a-number when it is zero. The division is not guarded and its result is not
  replaced: each ROI is the value of its formula.
\<close>

theorem zero_prepayment:
  assumes p: "prepayment i = js_lit 0"
    and bf: "js_isFinite (baseCost (calculateResults i))"
    and bp: "js_ge (baseCost (calculateResults i)) (js_lit 0)"
  shows "js_eq (prepaymentAmount (calculateResults i)) (js_lit 0)
       \<and> (js_gt (costSavings (calculateResults i)) (js_lit 0)
            \<longrightarrow> baseROI (calculateResults i) = PInf)
       \<and> (js_eq (costSavings (calculateResults i)) (js_lit 0)
            \<longrightarrow> is_nan (baseROI (calculateResults i)))
       \<and> (js_gt (js_add (costSavings (calculateResults i))
                         (flexibilityValue (calculateResults i))) (js_lit 0)
            \<longrightarrow> totalROI (calculateResults i) = PInf)
       \<and> (js_eq (js_add (costSavings (calculateResults i))
                         (flexibilityValue (calculateResults i))) (js_lit 0)
            \<longrightarrow> is_nan (totalROI (calculateResults i)))
       \<and> baseROI (calculateResults i) =
           js_mul (js_div (costSavings (calculateResults i))
                          (prepaymentAmount (calculateResults i))) (js_lit 100)
       \<and> totalROI (calculateResults i) =
           js_mul (js_div (js_add (costSavings (calculateResults i))
                                  (flexibilityValue (calculateResults i)))
                          (prepaymentAmount (calculateResults i))) (js_lit 100)"
proof -
  let ?r = "calculateResults i"
  let ?n = "js_add (costSavings ?r) (flexibilityValue ?r)"
  have q: "js_div (prepayment i) (js_lit 100) = Num 0"
    by (simp add: p lit_0 lit_100 js_div_def rnd_0 js_fin_def)
  have pa: "prepaymentAmount ?r = js_mul (baseCost ?r) (Num 0)"
    by (simp add: calc_prepaymentAmount q)
  have pz: "is_zero (prepaymentAmount ?r)"
    unfolding pa using bf by (intro js_mul_zero_right) simp_all
  have zero: "is_nan (js_mul (js_div a (prepaymentAmount ?r)) (js_lit 100))" if "is_zero a" for a
    using that pz by (rule js_div_zero_by_zero_100)
  have nz: "\<not> js_gt (costSavings ?r) (Num 0) \<and> \<not> js_gt ?n (Num 0)"
    if "is_zero (baseCost ?r)"
  proof -
    have cs: "is_zero (costSavings ?r) \<or> is_nan (costSavings ?r)"
      unfolding calc_costSavings using that by (intro js_mul_zero_or_nan) simp
    have fv: "is_zero (flexibilityValue ?r) \<or> is_nan (flexibilityValue ?r)"
      unfolding calc_flexibilityValue using that by (intro js_mul_zero_or_nan) simp
    show ?thesis
      using cs fv by (simp add: zero_or_nan_not_gt js_add_zero_or_nan)
  qed
  have pos: "js_mul (js_div a (prepaymentAmount ?r)) (js_lit 100) = PInf"
    if "js_gt a (Num 0)" "\<not> is_zero (baseCost ?r)" for a
  proof -
    have "prepaymentAmount ?r = Num 0"
      using bf bp that(2) unfolding pa
      by (cases "baseCost ?r") (simp_all add: js_mul_def rnd_0 js_fin_def cmp_eval lit_0)
    then show ?thesis
      using that(1) by (simp add: js_div_pos_by_pos_zero lit_100 js_mul_PInf_100)
  qed
  have "js_eq (prepaymentAmount ?r) (js_lit 0)
      \<and> (js_gt (costSavings ?r) (js_lit 0) \<longrightarrow> baseROI ?r = PInf)
      \<and> (js_eq (costSavings ?r) (js_lit 0) \<longrightarrow> is_nan (baseROI ?r))
      \<and> (js_gt ?n (js_lit 0) \<longrightarrow> totalROI ?r = PInf)
      \<and> (js_eq ?n (js_lit 0) \<longrightarrow> is_nan (totalROI ?r))"
    using pz zero pos nz by (auto simp: js_eq_Num_0 lit_0 calc_baseROI calc_totalROI)
  then show ?thesis
    using calc_baseROI [of i] calc_totalROI [of i] by blast
qed

theorem zero_prepayment_witness:
  "prepayment (mk_inputs 30000 8000 0 5 30) = js_lit 0
   \<and> js_isFinite (baseCost (calculateResults (mk_inputs 30000 8000 0 5 30)))
   \<and> js_ge (baseCost (calculateResults (mk_inputs 30000 8000 0 5 30))) (js_lit 0)
   \<and> js_gt (costSavings (calculateResults (mk_inputs 30000 8000 0 5 30))) (js_lit 0)
   \<and> js_gt (js_add (costSavings (calculateResults (mk_inputs 30000 8000 0 5 30)))
                    (flexibilityValue (calculateResults (mk_inputs 30000 8000 0 5 30))))
            (js_lit 0)
   \<and> baseROI (calculateResults (mk_inputs 30000 8000 0 5 30)) = PInf
   \<and> totalROI (calculateResults (mk_inputs 30000 8000 0 5 30)) = PInf
   \<and> prepayment (mk_inputs 30000 8000 0 0 0) = js_lit 0
   \<and> js_isFinite (baseCost (calculateResults (mk_inputs 30000 8000 0 0 0)))
   \<and> js_ge (baseCost (calculateResults (mk_inputs 30000 8000 0 0 0))) (js_lit 0)
   \<and> js_eq (costSavings (calculateResults (mk_inputs 30000 8000 0 0 0))) (js_lit 0)
   \<and> js_eq (js_add (costSavings (calculateResults (mk_inputs 30000 8000 0 0 0)))
                    (flexibilityValue (calculateResults (mk_inputs 30000 8000 0 0 0))))
            (js_lit 0)
   \<and> is_nan (baseROI (calculateResults (mk_inputs 30000 8000 0 0 0)))
   \<and> is_nan (totalROI (calculateResults (mk_inputs 30000 8000 0 0 0)))"
proof -
  let ?a = "mk_inputs 30000 8000 0 5 30" and ?b = "mk_inputs 30000 8000 0 0 0"
  have a: "prepayment ?a = js_lit 0" "js_isFinite (baseCost (calculateResults ?a))"
    "js_ge (baseCost (calculateResults ?a)) (js_lit 0)"
    by (simp_all add: results_no_prepayment mk_inputs_fields lit_0 cmp_eval)
  have a': "js_gt (costSavings (calculateResults ?a)) (js_lit 0)"
    "js_gt (js_add (costSavings (calculateResults ?a)) (flexibilityValue (calculateResults ?a)))
       (js_lit 0)"
    by (simp_all add: results_no_prepayment lit_0 cmp_eval op_eval)
  have b: "prepayment ?b = js_lit 0" "js_isFinite (baseCost (calculateResults ?b))"
    "js_ge (baseCost (calculateResults ?b)) (js_lit 0)"
    by (simp_all add: results_zero_percentages mk_inputs_fields lit_0 cmp_eval)
  have b': "js_eq (costSavings (calculateResults ?b)) (js_lit 0)"
    "js_eq (js_add (costSavings (calculateResults ?b)) (flexibilityValue (calculateResults ?b)))
       (js_lit 0)"
    by (simp_all add: results_zero_percentages lit_0 cmp_eval op_eval)
  from zero_prepayment [OF a] a' have ra: "baseROI (calculateResults ?a) = PInf"
    "totalROI (calculateResults ?a) = PInf"
    by blast+
  from zero_prepayment [OF b] b' have rb: "is_nan (baseROI (calculateResults ?b))"
    "is_nan (totalROI (calculateResults ?b))"
    by blast+
  from a a' b b' ra rb show ?thesis
    by (simp only: simp_thms)
qed

text \<open>
  Claim C7, as stated: with \<open>priceDiscount = 0\<close>, \<open>flexibilityBand = 0\<close> and
  \<open>prepayment = 10\<close>, and any demand and wafer cost, both ROIs are 0. With a demand of 0
  the prepayment amount is 0 as well and both ROIs are not-a-number.
\<close>

theorem zero_discount_zero_demand:
  "js_eq (priceDiscount (mk_inputs 0 8000 10 0 0)) (js_lit 0)
   \<and> js_eq (flexibilityBand (mk_inputs 0 8000 10 0 0)) (js_lit 0)
   \<and> prepayment (mk_inputs 0 8000 10 0 0) = js_lit 10
   \<and> \<not> js_eq (baseROI (calculateResults (mk_inputs 0 8000 10 0 0))) (js_lit 0)
   \<and> \<not> js_eq (totalROI (calculateResults (mk_inputs 0 8000 10 0 0))) (js_lit 0)"
  by (simp add: results_zero_demand mk_inputs_fields lit_0 cmp_eval) (simp add: js_lit_def round_eval)

text \<open>
  Claim C7, amended: for every input record with \<open>priceDiscount = 0\<close>,
  \<open>flexibilityBand = 0\<close> and \<open>prepayment = 10\<close> whose \<open>baseCost\<close> is finite and whose
  \<open>prepaymentAmount\<close> is not 0, the fields \<open>costSavings\<close>, \<open>flexibilityValue\<close>, \<open>baseROI\<close>
  and \<open>totalROI\<close> are all equal to 0 (a zero of either sign).
\<close>

theorem zero_discount:
  assumes pd: "js_eq (priceDiscount i) (js_lit 0)"
    and fb: "js_eq (flexibilityBand i) (js_lit 0)"
    and p: "prepayment i = js_lit 10"
    and bf: "js_isFinite (baseCost (calculateResults i))"
    and pnz: "\<not> js_eq (prepaymentAmount (calculateResults i)) (js_lit 0)"
  shows "js_eq (costSavings (calculateResults i)) (js_lit 0)
       \<and> js_eq (flexibilityValue (calculateResults i)) (js_lit 0)
       \<and> js_eq (baseROI (calculateResults i)) (js_lit 0)
       \<and> js_eq (totalROI (calculateResults i)) (js_lit 0)"
proof -
  let ?r = "calculateResults i"
  have lit10: "js_lit 10 = Num 10" by (simp add: js_lit_def round_eval)
  have cs: "is_zero (costSavings ?r)"
    unfolding calc_costSavings lit_100
    using bf pd by (intro js_mul_zero_right js_div_zero_100) (simp_all add: js_eq_zero)
  have t: "is_zero (js_mul (baseCost ?r) (js_div (flexibilityBand i) (Num 100)))"
    using bf fb by (intro js_mul_zero_right js_div_zero_100) (simp_all add: js_eq_zero)
  have fv: "is_zero (flexibilityValue ?r)"
    unfolding calc_flexibilityValue lit_100 lit_020
    using t by (rule js_mul_zero_left) simp
  have pn: "\<not> is_nan (prepaymentAmount ?r)"
    unfolding calc_prepaymentAmount lit_100 p lit10
    using bf tenth_finite by (rule js_mul_finite_not_nan)
  have pz: "\<not> is_zero (prepaymentAmount ?r)"
    using pnz by (simp add: js_eq_zero)
  have q: "is_zero (js_mul (js_div a (prepaymentAmount ?r)) (js_lit 100))" if "is_zero a" for a
    unfolding lit_100
    using that pz pn by (intro js_mul_zero_left js_div_zero_by_nonzero) simp_all
  show ?thesis
    using cs fv q[OF cs] q[OF js_add_zero_zero[OF cs fv]]
    by (simp add: js_eq_zero calc_baseROI calc_totalROI)
qed

theorem zero_discount_witness:
  "js_eq (priceDiscount (mk_inputs 30000 8000 10 0 0)) (js_lit 0)
   \<and> js_eq (flexibilityBand (mk_inputs 30000 8000 10 0 0)) (js_lit 0)
   \<and> prepayment (mk_inputs 30000 8000 10 0 0) = js_lit 10
   \<and> js_isFinite (baseCost (calculateResults (mk_inputs 30000 8000 10 0 0)))
   \<and> \<not> js_eq (prepaymentAmount (calculateResults (mk_inputs 30000 8000 10 0 0))) (js_lit 0)
   \<and> js_eq (costSavings (calculateResults (mk_inputs 30000 8000 10 0 0))) (js_lit 0)
   \<and> js_eq (flexibilityValue (calculateResults (mk_inputs 30000 8000 10 0 0))) (js_lit 0)
   \<and> js_eq (baseROI (calculateResults (mk_inputs 30000 8000 10 0 0))) (js_lit 0)
   \<and> js_eq (totalROI (calculateResults (mk_inputs 30000 8000 10 0 0))) (js_lit 0)"
proof -
  let ?i = "mk_inputs 30000 8000 10 0 0"
  have lit10: "js_lit 10 = Num 10" by (simp add: js_lit_def round_eval)
  have h: "js_eq (priceDiscount ?i) (js_lit 0)" "js_eq (flexibilityBand ?i) (js_lit 0)"
    "prepayment ?i = js_lit 10" "js_isFinite (baseCost (calculateResults ?i))"
    "\<not> js_eq (prepaymentAmount (calculateResults ?i)) (js_lit 0)"
    by (simp_all add: results_no_discount mk_inputs_fields lit_0 lit10 cmp_eval)
  from zero_discount [OF h] h show ?thesis by simp
qed

text \<open>
  Claim C8. \<open>calculateResults\<close> is deterministic and stateless. A call returns the record
  that the formulas give for the \<open>inputs\<close> record of the state in which it is made, and
  leaves the state as it found it; so a second call made after it returns the same
  record, and two calls in states whose \<open>inputs\<close> records are identical return identical
  records (equal field by field), whatever else the two states hold.
\<close>

theorem calculateResults_deterministic:
  fixes s :: "'a component_scheme" and t :: "'b component_scheme"
  assumes "inputs s = inputs t"
  shows "run_state calculateResults_call s = (calculateResults (inputs s), s)
       \<and> fst (run_state calculateResults_call (snd (run_state calculateResults_call s)))
           = fst (run_state calculateResults_call s)
       \<and> fst (run_state calculateResults_call s) = fst (run_state calculateResults_call t)
       \<and> baseCost (fst (run_state calculateResults_call s))
           = baseCost (fst (run_state calculateResults_call t))
       \<and> prepaymentAmount (fst (run_state calculateResults_call s))
           = prepaymentAmount (fst (run_state calculateResults_call t))
       \<and> costSavings (fst (run_state calculateResults_call s))
           = costSavings (fst (run_state calculateResults_call t))
       \<and> flexibilityValue (fst (run_state calculateResults_call s))
           = flexibilityValue (fst (run_state calculateResults_call t))
       \<and> baseROI (fst (run_state calculateResults_call s))
           = baseROI (fst (run_state calculateResults_call t))
       \<and> totalROI (fst (run_state calculateResults_call s))
           = totalROI (fst (run_state calculateResults_call t))"
  using assms by (simp add: calculateResults_call_run)

theorem calculateResults_deterministic_witness:
  "inputs initial_component = inputs (component.extend initial_component True)
   \<and> run_state calculateResults_call initial_component
       = (calculateResults defaults, initial_component)
   \<and> fst (run_state calculateResults_call
             (snd (run_state calculateResults_call initial_component)))
       = fst (run_state calculateResults_call initial_component)
   \<and> fst (run_state calculateResults_call initial_component)
       = fst (run_state calculateResults_call (component.extend initial_component True))
   \<and> totalROI (fst (run_state calculateResults_call (component.extend initial_component True)))
       = Num (110 + 1 / 2 ^ 46)"
proof -
  have h: "inputs initial_component = inputs (component.extend initial_component True)"
    by (simp add: component.defs)
  have i: "inputs initial_component = defaults"
    by (simp add: initial_component_def)
  note d = calculateResults_deterministic [OF h]
  from d have a: "run_state calculateResults_call initial_component
      = (calculateResults (inputs initial_component), initial_component)"
    by blast
  from d have b: "fst (run_state calculateResults_call
        (snd (run_state calculateResults_call initial_component)))
      = fst (run_state calculateResults_call initial_component)"
    by blast
  from d have c: "fst (run_state calculateResults_call initial_component)
      = fst (run_state calculateResults_call (component.extend initial_component True))"
    by blast
  have e: "fst (run_state calculateResults_call (component.extend initial_component True))
      = calculateResults defaults"
    unfolding c[symmetric] a i by simp
  show ?thesis
  proof (intro conjI)
    show "inputs initial_component = inputs (component.extend initial_component True)"
      by (rule h)
    show "run_state calculateResults_call initial_component
        = (calculateResults defaults, initial_component)"
      using a unfolding i .
    show "fst (run_state calculateResults_call
          (snd (run_state calculateResults_call initial_component)))
        = fst (run_state calculateResults_call initial_component)"
      by (rule b)
    show "fst (run_state calculateResults_call initial_component)
        = fst (run_state calculateResults_call (component.extend initial_component True))"
      by (rule c)
    show "totalROI (fst (run_state calculateResults_call
          (component.extend initial_component True))) = Num (110 + 1 / 2 ^ 46)"
      unfolding e results_defaults by simp
  qed
qed

text \<open>
  Claim C9. For every record of finite inputs with \<open>annualWaferDemand = 0\<close> or
  \<open>waferCost = 0\<close>, the fields \<open>baseCost\<close>, \<open>prepaymentAmount\<close>, \<open>costSavings\<close> and
  \<open>flexibilityValue\<close> are all equal to 0 (a zero of either sign), and \<open>baseROI\<close> and
  \<open>totalROI\<close> are both not-a-number, the quotient of zero by zero, whatever the
  prepayment is.
\<close>

theorem zero_base_cost:
  assumes fi: "finite_inputs i"
    and z: "js_eq (annualWaferDemand i) (js_lit 0) \<or> js_eq (waferCost i) (js_lit 0)"
  shows "js_eq (baseCost (calculateResults i)) (js_lit 0)
       \<and> js_eq (prepaymentAmount (calculateResults i)) (js_lit 0)
       \<and> js_eq (costSavings (calculateResults i)) (js_lit 0)
       \<and> js_eq (flexibilityValue (calculateResults i)) (js_lit 0)
       \<and> is_nan (baseROI (calculateResults i))
       \<and> is_nan (totalROI (calculateResults i))"
proof -
  let ?r = "calculateResults i"
  have f: "js_isFinite (annualWaferDemand i)" "js_isFinite (waferCost i)"
    using fi by (simp_all add: finite_inputs_def finite_number_def)
  have b: "is_zero (baseCost ?r)"
    using z f by (auto simp: calc_baseCost js_eq_zero js_mul_zero_left js_mul_zero_right)
  have pa: "is_zero (prepaymentAmount ?r)"
    unfolding calc_prepaymentAmount lit_100
    using b fi
    by (intro js_mul_zero_left finite_number_div_100) (simp_all add: finite_inputs_def)
  have cs: "is_zero (costSavings ?r)"
    unfolding calc_costSavings lit_100
    using b fi
    by (intro js_mul_zero_left finite_number_div_100) (simp_all add: finite_inputs_def)
  have fv: "is_zero (flexibilityValue ?r)"
    unfolding calc_flexibilityValue lit_100 lit_020
    using b fi
    by (intro js_mul_zero_left finite_number_div_100) (simp_all add: finite_inputs_def)
  have br: "baseROI ?r = NaN"
    by (simp add: calc_baseROI js_div_zero_zero[OF cs pa] js_mul_NaN_left)
  have tr: "totalROI ?r = NaN"
    by (simp add: calc_totalROI js_div_zero_zero[OF js_add_zero_zero[OF cs fv] pa] js_mul_NaN_left)
  show ?thesis using b pa cs fv br tr by (simp add: js_eq_zero)
qed

theorem zero_base_cost_witness:
  "finite_inputs (defaults\<lparr>annualWaferDemand := Num 0\<rparr>)
   \<and> js_eq (annualWaferDemand (defaults\<lparr>annualWaferDemand := Num 0\<rparr>)) (js_lit 0)
   \<and> js_gt (prepayment (defaults\<lparr>annualWaferDemand := Num 0\<rparr>)) (js_lit 0)
   \<and> js_eq (baseCost (calculateResults (defaults\<lparr>annualWaferDemand := Num 0\<rparr>))) (js_lit 0)
   \<and> is_nan (baseROI (calculateResults (defaults\<lparr>annualWaferDemand := Num 0\<rparr>)))
   \<and> is_nan (totalROI (calculateResults (defaults\<lparr>annualWaferDemand := Num 0\<rparr>)))"
proof -
  let ?z = "defaults\<lparr>annualWaferDemand := Num 0\<rparr>"
  have f: "finite_inputs ?z"
    by (simp add: finite_inputs_def defaults_fields finite_number_defaults finite_number_0)
  have z: "js_eq (annualWaferDemand ?z) (js_lit 0) \<or> js_eq (waferCost ?z) (js_lit 0)"
    by (simp add: lit_0 js_eq_def)
  have p: "js_gt (prepayment ?z) (js_lit 0)"
    by (simp add: defaults_fields lit_0 cmp_eval)
  from zero_base_cost [OF f z] f p show ?thesis
    by (simp add: js_eq_zero)
qed




end
